theory Spec2Isabelle
  imports Complex_Main "HOL-Library.Sublist"
begin

section \<open>JavaScript numbers\<close>

text \<open>
  A JavaScript number is an IEEE-754 binary64 value. The model keeps the not-a-number value,
  the two infinities and the finite values, a finite value being the rational number it
  denotes. Every arithmetic operation computes the exact rational result and rounds it to
  the nearest binary64 value, ties to even, as IEEE-754 prescribes (\<open>to_double\<close>).
  The sign of zero is not kept: \<open>Fin 0\<close> stands for both zeros. The program never
  divides by a variable, and its numbers only reach comparisons, where the two zeros are equal,
  and the media element. A value \<open>Fin x\<close> handed to an operation need not be a binary64
  value; what an operation returns is one.
\<close>

datatype jsnum = NaN | PInf | NInf | Fin rat

fun bitlength :: "nat \<Rightarrow> nat" where
  "bitlength n = (if n = 0 then 0 else Suc (bitlength (n div 2)))"

declare bitlength.simps [simp del]

definition pow2 :: "int \<Rightarrow> rat" where
  "pow2 e = (if 0 \<le> e then 2 ^ nat e else 1 / 2 ^ nat (- e))"

definition binexp :: "rat \<Rightarrow> int" where
  \<comment> \<open>for \<open>0 < x\<close>, the integer \<open>e\<close> with \<open>2 ^ e \<le> x < 2 ^ (e + 1)\<close>\<close>
  "binexp x =
     (if 1 \<le> x then int (bitlength (nat \<lfloor>x\<rfloor>)) - 1
      else - int (bitlength (nat (\<lceil>1 / x\<rceil> - 1))))"

definition round_even :: "rat \<Rightarrow> int" where
  \<comment> \<open>the nearest integer, a tie going to the even one\<close>
  "round_even x =
     (let f = \<lfloor>x\<rfloor>; d = x - of_int f
      in if d < 1 / 2 then f
         else if 1 / 2 < d then f + 1
         else if even f then f else f + 1)"

definition to_double_pos :: "rat \<Rightarrow> jsnum" where
  \<comment> \<open>for \<open>0 < x\<close>: 53 significant bits, exponents from -1022 (subnormals below) to 1023\<close>
  "to_double_pos x =
     (let e = max (binexp x) (- 1022);
          q = pow2 (e - 52);
          r = of_int (round_even (x / q)) * q
      in if pow2 1024 \<le> r then PInf else Fin r)"

definition js_neg :: "jsnum \<Rightarrow> jsnum" where
  "js_neg a = (case a of NaN \<Rightarrow> NaN | PInf \<Rightarrow> NInf | NInf \<Rightarrow> PInf | Fin x \<Rightarrow> Fin (- x))"

definition to_double :: "rat \<Rightarrow> jsnum" where
  "to_double x =
     (if x = 0 then Fin 0
      else if 0 < x then to_double_pos x
      else js_neg (to_double_pos (- x)))"

definition js_add :: "jsnum \<Rightarrow> jsnum \<Rightarrow> jsnum" where
  "js_add a b =
     (case (a, b) of
        (NaN, _) \<Rightarrow> NaN
      | (_, NaN) \<Rightarrow> NaN
      | (PInf, NInf) \<Rightarrow> NaN
      | (NInf, PInf) \<Rightarrow> NaN
      | (PInf, _) \<Rightarrow> PInf
      | (_, PInf) \<Rightarrow> PInf
      | (NInf, _) \<Rightarrow> NInf
      | (_, NInf) \<Rightarrow> NInf
      | (Fin x, Fin y) \<Rightarrow> to_double (x + y))"

definition js_sub :: "jsnum \<Rightarrow> jsnum \<Rightarrow> jsnum" where
  "js_sub a b = js_add a (js_neg b)"

definition sign_inf :: "bool \<Rightarrow> jsnum" where
  "sign_inf positive = (if positive then PInf else NInf)"

definition js_mul :: "jsnum \<Rightarrow> jsnum \<Rightarrow> jsnum" where
  "js_mul a b =
     (case (a, b) of
        (NaN, _) \<Rightarrow> NaN
      | (_, NaN) \<Rightarrow> NaN
      | (Fin x, Fin y) \<Rightarrow> to_double (x * y)
      | (Fin x, PInf) \<Rightarrow> (if x = 0 then NaN else sign_inf (0 < x))
      | (Fin x, NInf) \<Rightarrow> (if x = 0 then NaN else sign_inf (x < 0))
      | (PInf, Fin y) \<Rightarrow> (if y = 0 then NaN else sign_inf (0 < y))
      | (NInf, Fin y) \<Rightarrow> (if y = 0 then NaN else sign_inf (y < 0))
      | (PInf, PInf) \<Rightarrow> PInf
      | (NInf, NInf) \<Rightarrow> PInf
      | (PInf, NInf) \<Rightarrow> NInf
      | (NInf, PInf) \<Rightarrow> NInf)"

definition js_div :: "jsnum \<Rightarrow> jsnum \<Rightarrow> jsnum" where
  \<comment> \<open>a zero divisor is taken as the positive zero\<close>
  "js_div a b =
     (case (a, b) of
        (NaN, _) \<Rightarrow> NaN
      | (_, NaN) \<Rightarrow> NaN
      | (Fin x, Fin y) \<Rightarrow>
          (if y = 0 then (if x = 0 then NaN else sign_inf (0 < x)) else to_double (x / y))
      | (Fin x, _) \<Rightarrow> Fin 0
      | (PInf, Fin y) \<Rightarrow> sign_inf (0 \<le> y)
      | (NInf, Fin y) \<Rightarrow> sign_inf (y < 0)
      | (_, _) \<Rightarrow> NaN)"

definition js_le :: "jsnum \<Rightarrow> jsnum \<Rightarrow> bool" where
  \<comment> \<open>\<open>a <= b\<close>: false as soon as one side is not a number\<close>
  "js_le a b =
     (case (a, b) of
        (NaN, _) \<Rightarrow> False
      | (_, NaN) \<Rightarrow> False
      | (NInf, _) \<Rightarrow> True
      | (_, PInf) \<Rightarrow> True
      | (PInf, _) \<Rightarrow> False
      | (_, NInf) \<Rightarrow> False
      | (Fin x, Fin y) \<Rightarrow> x \<le> y)"

definition js_ge :: "jsnum \<Rightarrow> jsnum \<Rightarrow> bool" where
  "js_ge a b = js_le b a"

definition js_gt :: "jsnum \<Rightarrow> jsnum \<Rightarrow> bool" where
  \<comment> \<open>\<open>a > b\<close>\<close>
  "js_gt a b =
     (case (a, b) of
        (NaN, _) \<Rightarrow> False
      | (_, NaN) \<Rightarrow> False
      | (NInf, _) \<Rightarrow> False
      | (_, PInf) \<Rightarrow> False
      | (PInf, _) \<Rightarrow> True
      | (_, NInf) \<Rightarrow> True
      | (Fin x, Fin y) \<Rightarrow> y < x)"

definition Math_abs :: "jsnum \<Rightarrow> jsnum" where
  "Math_abs a = (case a of NaN \<Rightarrow> NaN | PInf \<Rightarrow> PInf | NInf \<Rightarrow> PInf | Fin x \<Rightarrow> Fin \<bar>x\<bar>)"

section \<open>JavaScript strings\<close>

text \<open>
  A JavaScript string is represented by the bytes of its UTF-8 encoding, one \<open>char\<close> a
  byte. The operations the program applies to strings (concatenation, splitting at an ASCII
  separator, reading ASCII digits, searching an ASCII word) give the same result on the
  encoding as on the code units.
\<close>

definition white_space :: "string list" where
  \<comment> \<open>the white space and line terminator code points of ECMAScript, encoded\<close>
  "white_space =
     [[CHR 0x09], [CHR 0x0A], [CHR 0x0B], [CHR 0x0C], [CHR 0x0D], [CHR 0x20],
      [CHR 0xC2, CHR 0xA0], [CHR 0xE1, CHR 0x9A, CHR 0x80],
      [CHR 0xE2, CHR 0x80, CHR 0x80], [CHR 0xE2, CHR 0x80, CHR 0x81],
      [CHR 0xE2, CHR 0x80, CHR 0x82], [CHR 0xE2, CHR 0x80, CHR 0x83],
      [CHR 0xE2, CHR 0x80, CHR 0x84], [CHR 0xE2, CHR 0x80, CHR 0x85],
      [CHR 0xE2, CHR 0x80, CHR 0x86], [CHR 0xE2, CHR 0x80, CHR 0x87],
      [CHR 0xE2, CHR 0x80, CHR 0x88], [CHR 0xE2, CHR 0x80, CHR 0x89],
      [CHR 0xE2, CHR 0x80, CHR 0x8A], [CHR 0xE2, CHR 0x80, CHR 0xA8],
      [CHR 0xE2, CHR 0x80, CHR 0xA9], [CHR 0xE2, CHR 0x80, CHR 0xAF],
      [CHR 0xE2, CHR 0x81, CHR 0x9F], [CHR 0xE3, CHR 0x80, CHR 0x80],
      [CHR 0xEF, CHR 0xBB, CHR 0xBF]]"

fun trimStartN :: "nat \<Rightarrow> string \<Rightarrow> string" where
  \<comment> \<open>drops at most \<open>n\<close> leading white space code points\<close>
  "trimStartN 0 s = s"
| "trimStartN (Suc n) s =
     (case find (\<lambda>w. prefix w s) white_space of
        None \<Rightarrow> s
      | Some w \<Rightarrow> trimStartN n (drop (length w) s))"

definition trimStart :: "string \<Rightarrow> string" where
  "trimStart s = trimStartN (length s) s"

fun trimEndN :: "nat \<Rightarrow> string \<Rightarrow> string" where
  "trimEndN 0 s = s"
| "trimEndN (Suc n) s =
     (case find (\<lambda>w. suffix w s) white_space of
        None \<Rightarrow> s
      | Some w \<Rightarrow> trimEndN n (take (length s - length w) s))"

definition trimEnd :: "string \<Rightarrow> string" where
  "trimEnd s = trimEndN (length s) s"

definition trim :: "string \<Rightarrow> string" where
  "trim s = trimEnd (trimStart s)"

fun split :: "char \<Rightarrow> string \<Rightarrow> string list" where
  \<comment> \<open>\<open>s.split(c)\<close> for a one-character separator: never empty, \<open>.split(c)\<close> is \<open>[]\<close>\<close>
  "split c [] = [[]]"
| "split c (x # xs) =
     (if x = c then [] # split c xs
      else (case split c xs of
              [] \<Rightarrow> [[x]]
            | p # ps \<Rightarrow> (x # p) # ps))"

definition digitValue :: "char \<Rightarrow> nat option" where
  \<comment> \<open>the value of a digit or letter in a radix up to 36\<close>
  "digitValue c =
     (let n = (of_char c :: nat)
      in if 48 \<le> n \<and> n \<le> 57 then Some (n - 48)
         else if 97 \<le> n \<and> n \<le> 122 then Some (n - 87)
         else if 65 \<le> n \<and> n \<le> 90 then Some (n - 55)
         else None)"

definition isRadixDigit :: "nat \<Rightarrow> char \<Rightarrow> bool" where
  "isRadixDigit R c = (case digitValue c of None \<Rightarrow> False | Some d \<Rightarrow> d < R)"

definition radixValue :: "nat \<Rightarrow> string \<Rightarrow> nat" where
  \<comment> \<open>the mathematical value of a string of radix-\<open>R\<close> digits\<close>
  "radixValue R ds = foldl (\<lambda>a c. a * R + (case digitValue c of None \<Rightarrow> 0 | Some d \<Rightarrow> d)) 0 ds"

definition scale10 :: "rat \<Rightarrow> int \<Rightarrow> rat" where
  "scale10 x e = (if 0 \<le> e then x * 10 ^ nat e else x / 10 ^ nat (- e))"

definition exponentPart :: "string \<Rightarrow> int option" where
  \<comment> \<open>nothing, or \<open>e\<close> or \<open>E\<close>, an optional sign and at least one decimal digit\<close>
  "exponentPart s =
     (case s of
        [] \<Rightarrow> Some 0
      | c # t \<Rightarrow>
          if c = CHR ''e'' \<or> c = CHR ''E'' then
            (let neg = (case t of [] \<Rightarrow> False | d # _ \<Rightarrow> d = CHR ''-'');
                 ds = (case t of
                         [] \<Rightarrow> []
                       | d # r \<Rightarrow> if d = CHR ''+'' \<or> d = CHR ''-'' then r else t)
             in if ds \<noteq> [] \<and> list_all (isRadixDigit 10) ds
                then Some (if neg then - int (radixValue 10 ds) else int (radixValue 10 ds))
                else None)
          else None)"

definition strUnsignedDecimalLiteral :: "string \<Rightarrow> jsnum" where
  \<comment> \<open>\<open>Infinity\<close>, or digits with an optional fraction and an optional exponent\<close>
  "strUnsignedDecimalLiteral s =
     (if s = ''Infinity'' then PInf
      else
        (let ip = takeWhile (isRadixDigit 10) s;
             r1 = dropWhile (isRadixDigit 10) s;
             r2 = (case r1 of [] \<Rightarrow> [] | c # t \<Rightarrow> if c = CHR ''.'' then t else r1);
             fp = (if r2 = r1 then [] else takeWhile (isRadixDigit 10) r2);
             r3 = (if r2 = r1 then r1 else dropWhile (isRadixDigit 10) r2)
         in if ip = [] \<and> fp = [] then NaN
            else (case exponentPart r3 of
                    None \<Rightarrow> NaN
                  | Some e \<Rightarrow>
                      to_double
                        (scale10 (of_nat (radixValue 10 ip)
                                  + of_nat (radixValue 10 fp) / 10 ^ length fp) e))))"

definition nonDecimalIntegerLiteral :: "string \<Rightarrow> jsnum option" where
  \<comment> \<open>\<open>0x\<close>, \<open>0o\<close>, \<open>0b\<close> (either case) and at least one digit of that radix\<close>
  "nonDecimalIntegerLiteral s =
     (case s of
        z # p # ds \<Rightarrow>
          if z = CHR ''0'' then
            (let R = (if p = CHR ''x'' \<or> p = CHR ''X'' then 16
                      else if p = CHR ''o'' \<or> p = CHR ''O'' then 8
                      else if p = CHR ''b'' \<or> p = CHR ''B'' then 2 else (0::nat))
             in if R = 0 then None
                else if ds \<noteq> [] \<and> list_all (isRadixDigit R) ds
                then Some (to_double (of_nat (radixValue R ds)))
                else Some NaN)
          else None
      | _ \<Rightarrow> None)"

definition Number :: "string \<Rightarrow> jsnum" where
  \<comment> \<open>\<open>Number(s)\<close> on a string: white space trimmed, the empty string is 0\<close>
  "Number str =
     (let s = trim str
      in if s = [] then Fin 0
         else (case nonDecimalIntegerLiteral s of
                 Some v \<Rightarrow> v
               | None \<Rightarrow>
                   (case s of
                      [] \<Rightarrow> Fin 0
                    | c # t \<Rightarrow>
                        if c = CHR ''+'' then strUnsignedDecimalLiteral t
                        else if c = CHR ''-'' then js_neg (strUnsignedDecimalLiteral t)
                        else strUnsignedDecimalLiteral s)))"

definition parseInt :: "string \<Rightarrow> jsnum" where
  \<comment> \<open>\<open>parseInt(s)\<close> with no radix: leading white space, a sign, \<open>0x\<close> for radix 16,
      then the longest run of digits; not a number when that run is empty\<close>
  "parseInt str =
     (let s0 = trimStart str;
          neg = (case s0 of [] \<Rightarrow> False | c # _ \<Rightarrow> c = CHR ''-'');
          s1 = (case s0 of
                  [] \<Rightarrow> []
                | c # t \<Rightarrow> if c = CHR ''+'' \<or> c = CHR ''-'' then t else s0);
          hex = (case s1 of
                   z # p # _ \<Rightarrow> z = CHR ''0'' \<and> (p = CHR ''x'' \<or> p = CHR ''X'')
                 | _ \<Rightarrow> False);
          R = (if hex then 16 else 10);
          s2 = (if hex then drop 2 s1 else s1);
          Z = takeWhile (isRadixDigit R) s2
      in if Z = [] then NaN
         else (let v = to_double (of_nat (radixValue R Z))
               in if neg then js_neg v else v))"

section \<open>The time codec\<close>

definition or_default :: "string option \<Rightarrow> string \<Rightarrow> string" where
  \<comment> \<open>\<open>x || d\<close> on a string that may be undefined: the empty string is falsy\<close>
  "or_default x d = (case x of None \<Rightarrow> d | Some s \<Rightarrow> if s = [] then d else s)"

definition element :: "'a list \<Rightarrow> nat \<Rightarrow> 'a option" where
  \<comment> \<open>an array element taken by destructuring: undefined past the end\<close>
  "element xs i = (if i < length xs then Some (xs ! i) else None)"

definition ToNumber :: "jsnum option \<Rightarrow> jsnum" where
  \<comment> \<open>undefined in arithmetic is not a number\<close>
  "ToNumber x = (case x of None \<Rightarrow> NaN | Some v \<Rightarrow> v)"

definition VideoPlayer_parseTime :: "string \<Rightarrow> jsnum" where
  \<comment> \<open>\<open>parseTime\<close> of components/VideoPlayer.tsx\<close>
  "VideoPlayer_parseTime timeStr =
     (let parts = split CHR '','' timeStr;
          hms = hd parts;
          ms = element parts 1;
          nums = map Number (split CHR '':'' hms);
          h = ToNumber (element nums 0);
          m = ToNumber (element nums 1);
          s = ToNumber (element nums 2)
      in js_add (js_add (js_add (js_mul h (Fin 3600)) (js_mul m (Fin 60))) s)
                (js_div (parseInt (or_default ms ''0'')) (Fin 1000)))"

definition SubtitleList_parseTime :: "string \<Rightarrow> jsnum" where
  \<comment> \<open>\<open>parseTime\<close> of components/SubtitleList.tsx\<close>
  "SubtitleList_parseTime timeStr =
     (let parts = split CHR '','' timeStr;
          hms = hd parts;
          ms = element parts 1;
          nums = map Number (split CHR '':'' hms);
          h = ToNumber (element nums 0);
          m = ToNumber (element nums 1);
          s = ToNumber (element nums 2)
      in js_add (js_add (js_add (js_mul h (Fin 3600)) (js_mul m (Fin 60))) s)
                (js_div (parseInt (or_default ms ''0'')) (Fin 1000)))"

definition timeFormula :: "nat \<Rightarrow> nat \<Rightarrow> nat \<Rightarrow> nat \<Rightarrow> jsnum" where
  \<comment> \<open>\<open>h * 3600 + m * 60 + s + ms / 1000\<close> evaluated in binary64, left to right\<close>
  "timeFormula h m s ms =
     js_add
       (js_add
          (js_add (js_mul (to_double (of_nat h)) (Fin 3600)) (js_mul (to_double (of_nat m)) (Fin 60)))
          (to_double (of_nat s)))
       (js_div (to_double (of_nat ms)) (Fin 1000))"

section \<open>The data model (types.ts)\<close>

datatype Language = ENGLISH | CHINESE

record SubtitleItem =
  startTime :: string
  endTime :: string
  originalText :: string
  translatedText :: string

datatype Status = Idle | Reading | Uploading | Processing | Completed | Error

record ProcessingState =
  status :: Status
  message :: "string option"

text \<open>The browser's \<open>File\<close>: its name, its media type (possibly empty) and its size in bytes.\<close>

record File =
  file_name :: string
  file_type :: string
  file_size :: nat

text \<open>
  What the program does to the outside world, in the order it does it: dialogs, object URLs,
  the media element, the download, the status callback, and the calls to the remote provider
  with the delay between two status queries. Console output is left out.
\<close>

datatype effect =
    Alert string
  | RevokeObjectURL string
  | CreateObjectURL File
  | SetVideoCurrentTime jsnum
  | DownloadBlob string string string
  | StatusUpdate string
  | FilesUpload string string
  | Delay nat
  | FilesGet "string option"
  | GenerateContent string string string Language

section \<open>The active caption and the seek guard (components/VideoPlayer.tsx)\<close>

definition activeSubtitle :: "jsnum \<Rightarrow> SubtitleItem list \<Rightarrow> SubtitleItem option" where
  \<comment> \<open>\<open>subtitles.find(...) || null\<close>: a caption object is truthy\<close>
  "activeSubtitle currentTime subtitles =
     find (\<lambda>sub.
             (let start = VideoPlayer_parseTime (startTime sub);
                  end' = VideoPlayer_parseTime (endTime sub)
              in js_ge currentTime start \<and> js_le currentTime end'))
          subtitles"

definition inRange :: "jsnum \<Rightarrow> SubtitleItem \<Rightarrow> bool" where
  \<comment> \<open>the time lies in the caption's range, both ends included\<close>
  "inRange t sub =
     (js_le (VideoPlayer_parseTime (startTime sub)) t
      \<and> js_le t (VideoPlayer_parseTime (endTime sub)))"

definition syncCurrentTime :: "jsnum option \<Rightarrow> jsnum \<Rightarrow> effect list" where
  \<comment> \<open>the first effect of the player; the first argument is the media element's own
      \<open>currentTime\<close>, or nothing while the element is not mounted\<close>
  "syncCurrentTime video currentTime =
     (case video of
        None \<Rightarrow> []
      | Some playerTime \<Rightarrow>
          if js_gt (Math_abs (js_sub playerTime currentTime)) (Fin (1 / 2))
          then [SetVideoCurrentTime currentTime]
          else [])"

section \<open>The export (downloadSRT of App.tsx)\<close>

definition digitChar :: "nat \<Rightarrow> char" where
  "digitChar d = ''0123456789'' ! d"

fun toStringNat :: "nat \<Rightarrow> string" where
  \<comment> \<open>a non-negative integer in a template literal: its decimal digits\<close>
  "toStringNat n =
     (if n < 10 then [digitChar n] else toStringNat (n div 10) @ [digitChar (n mod 10)])"

declare toStringNat.simps [simp del]

fun join :: "string \<Rightarrow> string list \<Rightarrow> string" where
  "join sep [] = []"
| "join sep [x] = x"
| "join sep (x # y # ys) = x @ sep @ join sep (y # ys)"

definition mapIndexed :: "('a \<Rightarrow> nat \<Rightarrow> 'b) \<Rightarrow> 'a list \<Rightarrow> 'b list" where
  \<comment> \<open>\<open>xs.map((x, index) => ...)\<close>\<close>
  "mapIndexed f xs = map (\<lambda>(i, x). f x i) (enumerate 0 xs)"

definition srtBlock :: "SubtitleItem \<Rightarrow> nat \<Rightarrow> string" where
  "srtBlock sub index =
     toStringNat (index + 1) @ [CHR 0x0A]
     @ startTime sub @ '' --> '' @ endTime sub @ [CHR 0x0A]
     @ translatedText sub @ [CHR 0x0A]
     @ originalText sub @ [CHR 0x0A]"

definition srtContent :: "SubtitleItem list \<Rightarrow> string" where
  "srtContent subtitles = join [CHR 0x0A] (mapIndexed srtBlock subtitles)"

definition downloadSRT :: "SubtitleItem list \<Rightarrow> effect list" where
  \<comment> \<open>the blob, offered as \<open>subtitles.srt\<close>; nothing at all for an empty list\<close>
  "downloadSRT subtitles =
     (if length subtitles = 0 then []
      else [DownloadBlob ''subtitles.srt'' ''text/plain'' (srtContent subtitles)])"

section \<open>The generation workflow (services/geminiService.ts)\<close>

text \<open>
  The provider's file resource, each property possibly absent, and a response of the
  file API: the resource either under the property \<open>file\<close> or as the response itself.
\<close>

record RemoteFile =
  uri :: "string option"
  name :: "string option"
  state :: "string option"

record FileResponse =
  wrapped :: "RemoteFile option"
  direct :: RemoteFile

definition unwrap :: "FileResponse \<Rightarrow> RemoteFile" where
  \<comment> \<open>\<open>response.file ?? response\<close>\<close>
  "unwrap response = (case wrapped response of Some f \<Rightarrow> f | None \<Rightarrow> direct response)"

text \<open>A thrown \<open>Error\<close>: its name and its message.\<close>

datatype js_error = JsError string string

fun error_message :: "js_error \<Rightarrow> string" where
  "error_message (JsError n m) = m"

fun error_toString :: "js_error \<Rightarrow> string" where
  "error_toString (JsError n m) = (if n = [] then m else if m = [] then n else n @ '': '' @ m)"

text \<open>An awaited call either returns or throws.\<close>

datatype 'a reply = Returns 'a | Throws js_error

text \<open>
  The remote provider, as far as one run of the workflow sees it: the reply to the upload,
  the reply to the \<open>k\<close>-th status query, the reply to the generation request (the text of
  the response, possibly absent), and \<open>JSON.parse\<close> on that text, which gives the caption
  list or throws. Building the client object is taken to succeed.
\<close>

record Provider =
  uploadReply :: "FileResponse reply"
  getReply :: "nat \<Rightarrow> FileResponse reply"
  generateReply :: "string option reply"
  parseJSON :: "string \<Rightarrow> SubtitleItem list option"

definition modelId :: string where
  "modelId = ''gemini-2.5-flash''"

definition PROCESSING :: "string option" where
  "PROCESSING = Some ''PROCESSING''"

definition FAILED :: "string option" where
  "FAILED = Some ''FAILED''"

definition processingFailed :: js_error where
  "processingFailed = JsError ''Error'' ''Video processing failed on Gemini servers.''"

definition uriMissing :: js_error where
  "uriMissing = JsError ''Error'' ''Failed to upload file: URI is missing from response.''"

definition pollStep :: "string option \<Rightarrow> effect list" where
  \<comment> \<open>one turn of the polling loop: the two-second timer, then the status query\<close>
  "pollStep fileName = [Delay 2000, FilesGet fileName]"

partial_function (option) pollLoop ::
  "(nat \<Rightarrow> FileResponse reply) \<Rightarrow> string option \<Rightarrow> nat \<Rightarrow> string option \<Rightarrow> effect list
     \<Rightarrow> ((js_error + unit) \<times> effect list) option" where
  "pollLoop get fileName k fileState tr =
     (if fileState = PROCESSING then
        (case get k of
           Throws e \<Rightarrow> Some (Inl e, tr @ pollStep fileName)
         | Returns fileStatus \<Rightarrow>
             if state (unwrap fileStatus) = FAILED
             then Some (Inl processingFailed, tr @ pollStep fileName)
             else pollLoop get fileName (Suc k) (state (unwrap fileStatus)) (tr @ pollStep fileName))
      else Some (Inr (), tr))"

definition notify :: "bool \<Rightarrow> string \<Rightarrow> effect list" where
  \<comment> \<open>\<open>if (onStatusUpdate) onStatusUpdate(msg)\<close>\<close>
  "notify hasCallback msg = (if hasCallback then [StatusUpdate msg] else [])"

definition generatePhase ::
  "Provider \<Rightarrow> bool \<Rightarrow> string \<Rightarrow> string \<Rightarrow> Language \<Rightarrow> effect list
     \<Rightarrow> (js_error + SubtitleItem list) \<times> effect list" where
  "generatePhase ai hasCallback mimeType fileUri targetLanguage tr =
     (let tr' = tr @ notify hasCallback ''Generating subtitles...''
                   @ [GenerateContent modelId mimeType fileUri targetLanguage]
      in case generateReply ai of
           Throws e \<Rightarrow> (Inl e, tr')
         | Returns text \<Rightarrow>
             (case text of
                None \<Rightarrow> (Inl (JsError ''Error'' ''No content generated.''), tr')
              | Some t \<Rightarrow>
                  if t = [] then (Inl (JsError ''Error'' ''No content generated.''), tr')
                  else (case parseJSON ai t of
                          None \<Rightarrow> (Inl (JsError ''Error'' ''Failed to parse generated subtitles.''), tr')
                        | Some data \<Rightarrow> (Inr data, tr'))))"

definition generateBilingualSubtitles ::
  "Provider \<Rightarrow> File \<Rightarrow> Language \<Rightarrow> bool
     \<Rightarrow> ((js_error + SubtitleItem list) \<times> effect list) option" where
  \<comment> \<open>the result is the caption list or the error thrown, with the effects in order;
      \<open>None\<close> when the polling loop never ends\<close>
  "generateBilingualSubtitles ai file targetLanguage hasCallback =
     (let mimeType = (if file_type file = [] then ''video/mp4'' else file_type file);
          tr1 = notify hasCallback ''Uploading video to Gemini...''
                @ [FilesUpload (file_name file) mimeType]
      in case uploadReply ai of
           Throws e \<Rightarrow> Some (Inl e, tr1)
         | Returns uploadResult \<Rightarrow>
             (case uri (unwrap uploadResult) of
                None \<Rightarrow> Some (Inl uriMissing, tr1)
              | Some fileUri \<Rightarrow>
                  if fileUri = [] then Some (Inl uriMissing, tr1)
                  else
                    (case pollLoop (getReply ai) (name (unwrap uploadResult)) 0
                            (state (unwrap uploadResult))
                            (tr1 @ notify hasCallback ''Processing video...'') of
                       None \<Rightarrow> None
                     | Some (Inl e, tr3) \<Rightarrow> Some (Inl e, tr3)
                     | Some (Inr _, tr3) \<Rightarrow>
                         Some (generatePhase ai hasCallback mimeType fileUri targetLanguage tr3))))"

definition isDelay :: "effect \<Rightarrow> bool" where
  "isDelay e = (case e of Delay _ \<Rightarrow> True | _ \<Rightarrow> False)"

definition isGenerate :: "effect \<Rightarrow> bool" where
  "isGenerate e = (case e of GenerateContent _ _ _ _ \<Rightarrow> True | _ \<Rightarrow> False)"

definition isRemoteCall :: "effect \<Rightarrow> bool" where
  "isRemoteCall e =
     (case e of
        FilesUpload _ _ \<Rightarrow> True
      | FilesGet _ \<Rightarrow> True
      | GenerateContent _ _ _ _ \<Rightarrow> True
      | _ \<Rightarrow> False)"

definition observedState :: "Provider \<Rightarrow> nat \<Rightarrow> string option option" where
  \<comment> \<open>the state the workflow reads at its \<open>k\<close>-th look at the resource: the upload response
      first, then the status queries in order; nothing when that query throws\<close>
  "observedState ai k =
     (case k of
        0 \<Rightarrow> (case uploadReply ai of
                Returns r \<Rightarrow> Some (state (unwrap r))
              | Throws _ \<Rightarrow> None)
      | Suc j \<Rightarrow> (case getReply ai j of
                    Returns r \<Rightarrow> Some (state (unwrap r))
                  | Throws _ \<Rightarrow> None))"

section \<open>The application state and its handlers (App.tsx)\<close>

record AppState =
  "file" :: "File option"
  videoUrl :: "string option"
  subtitles :: "SubtitleItem list"
  processingState :: ProcessingState
  targetLanguage :: Language
  currentTime :: jsnum

definition initialState :: AppState where
  "initialState =
     \<lparr>file = None, videoUrl = None, subtitles = [],
      processingState = \<lparr>status = Idle, message = None\<rparr>,
      targetLanguage = ENGLISH, currentTime = Fin 0\<rparr>"

definition MAX_FILE_SIZE :: nat where
  "MAX_FILE_SIZE = 4 * 1024 * 1024 * 1024"

definition handleFileChange ::
  "(File \<Rightarrow> string) \<Rightarrow> File option \<Rightarrow> AppState \<Rightarrow> AppState \<times> effect list" where
  \<comment> \<open>the first argument is the browser's \<open>URL.createObjectURL\<close>, the second the first
      file of the input element, if any\<close>
  "handleFileChange createObjectURL selected st =
     (case selected of
        None \<Rightarrow> (st, [])
      | Some selectedFile \<Rightarrow>
          if file_size selectedFile > MAX_FILE_SIZE
          then (st, [Alert ''File size exceeds the 4GB limit.''])
          else
            (st\<lparr>file := Some selectedFile,
                videoUrl := Some (createObjectURL selectedFile),
                subtitles := [],
                processingState := \<lparr>status = Idle, message = None\<rparr>\<rparr>,
             (case videoUrl st of
                None \<Rightarrow> []
              | Some u \<Rightarrow> if u = [] then [] else [RevokeObjectURL u])
             @ [CreateObjectURL selectedFile]))"

definition resetFile :: "AppState \<Rightarrow> AppState" where
  \<comment> \<open>the close button of the controls bar\<close>
  "resetFile st =
     st\<lparr>file := None, videoUrl := None, subtitles := [],
        processingState := \<lparr>status = Idle, message = None\<rparr>\<rparr>"

definition toLowerCase :: "string \<Rightarrow> string" where
  \<comment> \<open>on the ASCII letters; no other letter lower-cases to a letter of \<open>upload\<close>\<close>
  "toLowerCase s =
     map (\<lambda>c. if 65 \<le> (of_char c :: nat) \<and> (of_char c :: nat) \<le> 90
               then char_of ((of_char c :: nat) + 32) else c) s"

definition str_includes :: "string \<Rightarrow> string \<Rightarrow> bool" where
  \<comment> \<open>\<open>s.includes(w)\<close>\<close>
  "str_includes s w = sublist w s"

definition processStart :: "AppState \<Rightarrow> AppState" where
  "processStart st =
     st\<lparr>processingState := \<lparr>status = Uploading, message = Some ''Starting upload...''\<rparr>\<rparr>"

definition statusCallback :: "string \<Rightarrow> AppState \<Rightarrow> AppState" where
  \<comment> \<open>the callback handed to the workflow\<close>
  "statusCallback statusMessage st =
     (let st' = (if str_includes (toLowerCase statusMessage) ''upload'' then Uploading else Processing)
      in st\<lparr>processingState := \<lparr>status = st', message = Some statusMessage\<rparr>\<rparr>)"

definition processSuccess :: "SubtitleItem list \<Rightarrow> AppState \<Rightarrow> AppState" where
  "processSuccess generatedSubtitles st =
     st\<lparr>subtitles := generatedSubtitles,
        processingState := \<lparr>status = Completed, message = None\<rparr>\<rparr>"

definition processFailure :: "js_error \<Rightarrow> AppState \<Rightarrow> AppState" where
  \<comment> \<open>the catch block\<close>
  "processFailure err st =
     (let errorMsg0 = ''Failed to generate subtitles. Please try again.'';
          errorMsg1 = (if str_includes (error_message err) ''Project not found''
                       then ''API Key Invalid or Quota Exceeded.'' else errorMsg0);
          errorMsg = (if str_includes (error_toString err) ''413''
                      then ''File is too large for the current API tier or connection.''
                      else errorMsg1)
      in st\<lparr>processingState :=
              \<lparr>status = Error, message = Some (errorMsg @ '' ('' @ error_message err @ '')'')\<rparr>\<rparr>)"

definition statusMessages :: "effect list \<Rightarrow> string list" where
  "statusMessages tr = concat (map (\<lambda>e. case e of StatusUpdate m \<Rightarrow> [m] | _ \<Rightarrow> []) tr)"

definition handleProcess :: "Provider \<Rightarrow> AppState \<Rightarrow> (AppState \<times> effect list) option" where
  \<comment> \<open>one click on the generate button, run to its end with no other event in between;
      \<open>None\<close> when the workflow never returns\<close>
  "handleProcess ai st =
     (case file st of
        None \<Rightarrow> Some (st, [])
      | Some f \<Rightarrow>
          (case generateBilingualSubtitles ai f (targetLanguage st) True of
             None \<Rightarrow> None
           | Some (res, tr) \<Rightarrow>
               (let st1 = fold statusCallback (statusMessages tr) (processStart st)
                in Some (case res of
                           Inr generatedSubtitles \<Rightarrow> processSuccess generatedSubtitles st1
                         | Inl err \<Rightarrow> processFailure err st1,
                         tr))))"

text \<open>
  The events that write the application state, one at a time: a run of \<open>handleProcess\<close>
  is its start, the calls of the status callback, and its success or its failure, and the
  user may select a file or reset in between.
\<close>

datatype action =
    SelectFile "File option"
  | Reset
  | ProcessStart
  | StatusCallback string
  | ProcessSuccess "SubtitleItem list"
  | ProcessFailure js_error
  | SetTargetLanguage Language
  | SetCurrentTime jsnum

fun step :: "(File \<Rightarrow> string) \<Rightarrow> action \<Rightarrow> AppState \<Rightarrow> AppState" where
  "step u (SelectFile f) st = fst (handleFileChange u f st)"
| "step u Reset st = resetFile st"
| "step u ProcessStart st = (case file st of None \<Rightarrow> st | Some _ \<Rightarrow> processStart st)"
| "step u (StatusCallback m) st = statusCallback m st"
| "step u (ProcessSuccess subs) st = processSuccess subs st"
| "step u (ProcessFailure e) st = processFailure e st"
| "step u (SetTargetLanguage l) st = st\<lparr>targetLanguage := l\<rparr>"
| "step u (SetCurrentTime t) st = st\<lparr>currentTime := t\<rparr>"

inductive reachable :: "(File \<Rightarrow> string) \<Rightarrow> AppState \<Rightarrow> bool" for u where
  initial: "reachable u initialState"
| after: "reachable u st \<Longrightarrow> reachable u (step u a st)"

section \<open>Decimal digits\<close>

lemma digit_cases:
  assumes "isRadixDigit 10 c"
  shows "c \<in> set ''0123456789''"
proof -
  let ?n = "of_char c :: nat"
  from assms have "48 \<le> ?n \<and> ?n \<le> 57"
    by (auto simp: isRadixDigit_def digitValue_def Let_def split: if_splits option.splits)
  then have "?n = 48 \<or> ?n = 49 \<or> ?n = 50 \<or> ?n = 51 \<or> ?n = 52 \<or> ?n = 53 \<or> ?n = 54
      \<or> ?n = 55 \<or> ?n = 56 \<or> ?n = 57" by arith
  then have "?n = of_char CHR ''0'' \<or> ?n = of_char CHR ''1'' \<or> ?n = of_char CHR ''2''
      \<or> ?n = of_char CHR ''3'' \<or> ?n = of_char CHR ''4'' \<or> ?n = of_char CHR ''5''
      \<or> ?n = of_char CHR ''6'' \<or> ?n = of_char CHR ''7'' \<or> ?n = of_char CHR ''8''
      \<or> ?n = of_char CHR ''9''" by simp
  then have "c = CHR ''0'' \<or> c = CHR ''1'' \<or> c = CHR ''2'' \<or> c = CHR ''3'' \<or> c = CHR ''4''
      \<or> c = CHR ''5'' \<or> c = CHR ''6'' \<or> c = CHR ''7'' \<or> c = CHR ''8'' \<or> c = CHR ''9''"
    by (simp only: of_char_eq_iff)
  then show ?thesis by auto
qed

lemma not_digit_chars:
  "\<not> isRadixDigit 10 CHR '',''" "\<not> isRadixDigit 10 CHR '':''" "\<not> isRadixDigit 10 CHR ''+''"
  "\<not> isRadixDigit 10 CHR ''-''" "\<not> isRadixDigit 10 CHR ''I''" "\<not> isRadixDigit 10 CHR ''x''"
  "\<not> isRadixDigit 10 CHR ''X''" "\<not> isRadixDigit 10 CHR ''o''" "\<not> isRadixDigit 10 CHR ''O''"
  "\<not> isRadixDigit 10 CHR ''b''" "\<not> isRadixDigit 10 CHR ''B''"
  by (simp_all add: isRadixDigit_def digitValue_def)

lemma digits_no_sep:
  "list_all (isRadixDigit 10) ds \<Longrightarrow> CHR '','' \<notin> set ds \<and> CHR '':'' \<notin> set ds"
  using not_digit_chars(1,2) by (auto simp: list_all_iff)

section \<open>Splitting and trimming\<close>

lemma split_not_Nil: "split c s \<noteq> []"
  by (induction s) (auto split: list.splits)

lemma split_no_sep: "c \<notin> set a \<Longrightarrow> split c a = [a]"
  by (induction a) auto

lemma split_append: "c \<notin> set a \<Longrightarrow> split c (a @ c # b) = a # split c b"
  by (induction a) auto

lemma white_space_ends:
  "\<forall>w\<in>set white_space. w \<noteq> [] \<and> \<not> isRadixDigit 10 (hd w) \<and> \<not> isRadixDigit 10 (last w)"
  by (simp add: white_space_def isRadixDigit_def digitValue_def)

lemma ws_prefix_digit:
  assumes "isRadixDigit 10 c"
  shows "find (\<lambda>w. prefix w (c # cs)) white_space = None"
proof -
  have "\<not> prefix w (c # cs)" if "w \<in> set white_space" for w
  proof
    assume p: "prefix w (c # cs)"
    from that white_space_ends have w: "w \<noteq> []" "\<not> isRadixDigit 10 (hd w)" by auto
    from p w(1) have "hd w = c" by (auto simp: prefix_Cons)
    with w(2) assms show False by simp
  qed
  then show ?thesis by (auto simp: find_None_iff)
qed

lemma ws_suffix_digit:
  assumes "isRadixDigit 10 c"
  shows "find (\<lambda>w. suffix w (cs @ [c])) white_space = None"
proof -
  have "\<not> suffix w (cs @ [c])" if "w \<in> set white_space" for w
  proof
    assume p: "suffix w (cs @ [c])"
    from that white_space_ends have w: "w \<noteq> []" "\<not> isRadixDigit 10 (last w)" by auto
    from p obtain zs where "cs @ [c] = zs @ w" by (auto simp: suffix_def)
    then have "last (cs @ [c]) = last (zs @ w)" by simp
    with w(1) have "last w = c" by simp
    with w(2) assms show False by simp
  qed
  then show ?thesis by (auto simp: find_None_iff)
qed

lemma trimStart_digits: "list_all (isRadixDigit 10) ds \<Longrightarrow> trimStart ds = ds"
  by (cases ds) (simp_all add: trimStart_def ws_prefix_digit)

lemma trimEnd_digits:
  assumes "list_all (isRadixDigit 10) ds"
  shows "trimEnd ds = ds"
proof (cases ds rule: rev_cases)
  case Nil
  then show ?thesis by (simp add: trimEnd_def)
next
  case (snoc ys y)
  with assms have "isRadixDigit 10 y" by simp
  then have "find (\<lambda>w. suffix w ds) white_space = None"
    unfolding snoc by (rule ws_suffix_digit)
  moreover have "length ds = Suc (length ys)" using snoc by simp
  ultimately show ?thesis by (simp add: trimEnd_def)
qed

lemma trim_digits: "list_all (isRadixDigit 10) ds \<Longrightarrow> trim ds = ds"
  by (simp add: trim_def trimStart_digits trimEnd_digits)

section \<open>Rounding is exact on the integers below \<open>2 ^ 53\<close>\<close>

lemma bitlength_le: "n < 2 ^ k \<Longrightarrow> bitlength n \<le> k"
proof (induction k arbitrary: n)
  case 0
  then show ?case by (simp add: bitlength.simps)
next
  case (Suc k)
  then have "n div 2 < 2 ^ k" by simp
  then have "bitlength (n div 2) \<le> k" by (rule Suc.IH)
  then show ?case by (subst bitlength.simps) simp
qed

lemma bitlength_pos: "0 < n \<Longrightarrow> 0 < bitlength n"
  by (subst bitlength.simps) simp

lemma round_even_int: "round_even (of_int k) = k"
  by (simp add: round_even_def)

lemma to_double_nat:
  assumes "n < 2 ^ 53"
  shows "to_double (of_nat n) = Fin (of_nat n)"
proof (cases "n = 0")
  case True
  then show ?thesis by (simp add: to_double_def)
next
  case False
  then have n: "0 < n" by simp
  define b where "b = bitlength n"
  have b: "0 < b" "b \<le> 53" using n assms bitlength_pos bitlength_le by (auto simp: b_def)
  have x1: "(1::rat) \<le> of_nat n" using n by simp
  have e: "binexp (of_nat n) = int b - 1" using x1 by (simp add: binexp_def b_def)
  have m: "max (int b - 1) (- 1022) = int b - 1" using b by simp
  define k where "k = 53 - b"
  have q: "pow2 (int b - 1 - 52) = 1 / 2 ^ k"
    using b
    by (auto simp: pow2_def k_def nat_diff_distrib intro: arg_cong [where f = "\<lambda>j. (2::rat) ^ j"])
  have d: "rat_of_nat n / (1 / 2 ^ k) = of_int (int n * 2 ^ k)" by simp
  have r: "rat_of_int (round_even (rat_of_nat n / (1 / 2 ^ k))) * (1 / 2 ^ k) = of_nat n"
    unfolding d round_even_int by simp
  have "rat_of_nat n < 2 ^ 53" using assms by (metis of_nat_less_iff of_nat_numeral of_nat_power)
  also have "\<dots> < (2::rat) ^ 1024" by simp
  finally have lt: "\<not> pow2 1024 \<le> rat_of_nat n" by (simp add: pow2_def)
  have "to_double_pos (of_nat n) = Fin (of_nat n)"
    unfolding to_double_pos_def e m q Let_def r using lt by simp
  then show ?thesis using n by (simp add: to_double_def)
qed

lemma to_double_0: "to_double 0 = Fin 0"
  by (simp add: to_double_def)

text \<open>Rounding a given rational is a computation the simplifier carries out.\<close>

lemma floor_rat_div_numeral: "\<lfloor>numeral a / numeral b :: rat\<rfloor> = numeral a div numeral b"
  using floor_divide_of_int_eq [of "numeral a" "numeral b", where ?'a = rat] by simp

lemma ceiling_rat_div_numeral:
  "\<lceil>numeral a / numeral b :: rat\<rceil> = - (- numeral a div numeral b)"
  using floor_divide_of_int_eq [of "- numeral a" "numeral b", where ?'a = rat]
  by (simp add: ceiling_def)

lemma floor_rat_one_div_numeral: "\<lfloor>1 / numeral b :: rat\<rfloor> = 1 div numeral b"
  using floor_divide_of_int_eq [of 1 "numeral b", where ?'a = rat] by simp

lemmas to_double_eval = to_double_def to_double_pos_def binexp_def bitlength.simps pow2_def
  round_even_def Let_def js_neg_def floor_rat_div_numeral ceiling_rat_div_numeral
  floor_rat_one_div_numeral

lemma to_double_half: "to_double (1 / 2) = Fin (1 / 2)"
  by (simp add: to_double_eval)

lemma to_double_7447_2: "to_double (7447 / 2) = Fin (7447 / 2)"
  by (simp add: to_double_eval)

section \<open>Numbers written in decimal digits\<close>

lemma nonDecimal_digits:
  assumes "list_all (isRadixDigit 10) ds"
  shows "nonDecimalIntegerLiteral ds = None"
proof (cases ds)
  case Nil
  then show ?thesis by (simp add: nonDecimalIntegerLiteral_def)
next
  case c: (Cons z r)
  show ?thesis
  proof (cases r)
    case Nil
    with c show ?thesis by (simp add: nonDecimalIntegerLiteral_def)
  next
    case (Cons p t)
    with c assms have "isRadixDigit 10 p" by simp
    with not_digit_chars have "p \<noteq> CHR ''x''" "p \<noteq> CHR ''X''" "p \<noteq> CHR ''o''" "p \<noteq> CHR ''O''"
      "p \<noteq> CHR ''b''" "p \<noteq> CHR ''B''" by blast+
    with c Cons show ?thesis by (simp add: nonDecimalIntegerLiteral_def)
  qed
qed

lemma strUnsigned_digits:
  assumes "list_all (isRadixDigit 10) ds" "ds \<noteq> []"
  shows "strUnsignedDecimalLiteral ds = to_double (of_nat (radixValue 10 ds))"
proof -
  from assms have inf: "ds \<noteq> ''Infinity''" using not_digit_chars(5) by auto
  from assms have tw: "takeWhile (isRadixDigit 10) ds = ds"
    and dw: "dropWhile (isRadixDigit 10) ds = []"
    by (simp_all add: list_all_iff)
  have r0: "radixValue 10 [] = 0" by (simp add: radixValue_def)
  show ?thesis using assms(2) inf
    by (simp add: strUnsignedDecimalLiteral_def tw dw exponentPart_def scale10_def r0)
qed

lemma Number_digits:
  assumes "list_all (isRadixDigit 10) ds"
  shows "Number ds = to_double (of_nat (radixValue 10 ds))"
proof (cases ds)
  case Nil
  then show ?thesis
    by (simp add: Number_def trim_def trimStart_def trimEnd_def radixValue_def to_double_0)
next
  case (Cons c cs)
  with assms have c: "c \<noteq> CHR ''+''" "c \<noteq> CHR ''-''" using not_digit_chars by auto
  have "ds \<noteq> []" using Cons by simp
  with assms have "strUnsignedDecimalLiteral ds = to_double (of_nat (radixValue 10 ds))"
    by (rule strUnsigned_digits)
  with c Cons show ?thesis
    using trim_digits [OF assms] nonDecimal_digits [OF assms]
    by (simp add: Number_def)
qed

lemma parseInt_digits:
  assumes "list_all (isRadixDigit 10) ds" "ds \<noteq> []"
  shows "parseInt ds = to_double (of_nat (radixValue 10 ds))"
proof -
  from assms obtain c cs where ds: "ds = c # cs" by (cases ds) auto
  with assms have c: "c \<noteq> CHR ''+''" "c \<noteq> CHR ''-''" using not_digit_chars by auto
  have hex: "\<not> (case ds of z # p # _ \<Rightarrow> z = CHR ''0'' \<and> (p = CHR ''x'' \<or> p = CHR ''X'') | _ \<Rightarrow> False)"
    using assms(1) not_digit_chars by (auto split: list.splits)
  from assms have tw: "takeWhile (isRadixDigit 10) ds = ds" by (simp add: list_all_iff)
  have s1: "(case ds of [] \<Rightarrow> [] | c # t \<Rightarrow> if c = CHR ''+'' \<or> c = CHR ''-'' then t else ds) = ds"
    using ds c by simp
  have neg: "(case ds of [] \<Rightarrow> False | c # _ \<Rightarrow> c = CHR ''-'') = False"
    using ds c by simp
  show ?thesis
    unfolding parseInt_def trimStart_digits [OF assms(1)] Let_def s1 neg
    using hex assms(2) by (simp add: tw)
qed

lemma parseInt_ms:
  assumes "list_all (isRadixDigit 10) ms"
  shows "parseInt (or_default (Some ms) ''0'') = to_double (of_nat (radixValue 10 ms))"
proof (cases "ms = []")
  case True
  have "list_all (isRadixDigit 10) ''0''" by (simp add: isRadixDigit_def digitValue_def)
  then have "parseInt ''0'' = to_double (of_nat (radixValue 10 ''0''))"
    by (rule parseInt_digits) simp
  then show ?thesis using True by (simp add: or_default_def radixValue_def digitValue_def)
next
  case False
  with assms show ?thesis by (simp add: or_default_def parseInt_digits)
qed

section \<open>The time codec on well-formed timestamps\<close>

lemma element_simps:
  "element (x # xs) 0 = Some x" "element (x # y # xs) 1 = Some y" "element [x] 1 = None"
  "element (x # y # z # xs) 2 = Some z"
  by (simp_all add: element_def)

lemma split_hms:
  assumes "list_all (isRadixDigit 10) h" "list_all (isRadixDigit 10) m" "list_all (isRadixDigit 10) s"
  shows "split CHR '':'' (h @ '':'' @ m @ '':'' @ s) = [h, m, s]"
  using assms by (simp add: split_append split_no_sep digits_no_sep)

lemma hms_no_comma:
  assumes "list_all (isRadixDigit 10) h" "list_all (isRadixDigit 10) m" "list_all (isRadixDigit 10) s"
  shows "CHR '','' \<notin> set (h @ '':'' @ m @ '':'' @ s)"
  using assms by (simp add: digits_no_sep)

lemma parseTime_with_ms:
  assumes "list_all (isRadixDigit 10) h" "list_all (isRadixDigit 10) m"
    "list_all (isRadixDigit 10) s" "list_all (isRadixDigit 10) ms"
  shows "VideoPlayer_parseTime (h @ '':'' @ m @ '':'' @ s @ '','' @ ms) =
     timeFormula (radixValue 10 h) (radixValue 10 m) (radixValue 10 s) (radixValue 10 ms)"
proof -
  let ?a = "h @ '':'' @ m @ '':'' @ s"
  have "split CHR '','' (?a @ CHR '','' # ms) = ?a # split CHR '','' ms"
    using hms_no_comma [OF assms(1-3)] by (rule split_append)
  also have "split CHR '','' ms = [ms]" using assms(4) by (simp add: split_no_sep digits_no_sep)
  finally have sp: "split CHR '','' (h @ '':'' @ m @ '':'' @ s @ '','' @ ms) = [?a, ms]" by simp
  show ?thesis
    unfolding VideoPlayer_parseTime_def sp Let_def list.sel split_hms [OF assms(1-3)]
      element_simps list.map ToNumber_def option.case parseInt_ms [OF assms(4)]
      Number_digits [OF assms(1)] Number_digits [OF assms(2)] Number_digits [OF assms(3)]
      timeFormula_def
    by (rule refl)
qed

lemma parseTime_without_ms:
  assumes "list_all (isRadixDigit 10) h" "list_all (isRadixDigit 10) m"
    "list_all (isRadixDigit 10) s"
  shows "VideoPlayer_parseTime (h @ '':'' @ m @ '':'' @ s) =
     timeFormula (radixValue 10 h) (radixValue 10 m) (radixValue 10 s) 0"
proof -
  let ?a = "h @ '':'' @ m @ '':'' @ s"
  have sp: "split CHR '','' ?a = [?a]"
    using hms_no_comma [OF assms(1-3)] by (rule split_no_sep)
  have p0: "parseInt (or_default None ''0'') = to_double (of_nat 0)"
    using parseInt_ms [of "[]"] by (simp add: or_default_def radixValue_def)
  show ?thesis
    unfolding VideoPlayer_parseTime_def sp Let_def list.sel split_hms [OF assms(1-3)]
      element_simps list.map ToNumber_def option.case p0
      Number_digits [OF assms(1)] Number_digits [OF assms(2)] Number_digits [OF assms(3)]
      timeFormula_def
    by (rule refl)
qed

lemma timeFormula_exact:
  assumes "h * 3600 + m * 60 + s < 2 ^ 53" "ms < 2 ^ 53"
  shows "timeFormula h m s ms =
    js_add (Fin (of_nat (h * 3600 + m * 60 + s))) (js_div (Fin (of_nat ms)) (Fin 1000))"
proof -
  from assms have b: "h < 2 ^ 53" "m < 2 ^ 53" "s < 2 ^ 53" "h * 3600 < 2 ^ 53" "m * 60 < 2 ^ 53"
    "h * 3600 + m * 60 < 2 ^ 53" by simp_all
  have 1: "js_mul (Fin (of_nat h)) (Fin 3600) = Fin (of_nat (h * 3600))"
    using to_double_nat [OF b(4)] by (simp add: js_mul_def)
  have 2: "js_mul (Fin (of_nat m)) (Fin 60) = Fin (of_nat (m * 60))"
    using to_double_nat [OF b(5)] by (simp add: js_mul_def)
  have 3: "js_add (Fin (of_nat (h * 3600))) (Fin (of_nat (m * 60))) = Fin (of_nat (h * 3600 + m * 60))"
    using to_double_nat [OF b(6)] by (simp add: js_add_def)
  have 4: "js_add (Fin (of_nat (h * 3600 + m * 60))) (Fin (of_nat s)) = Fin (of_nat (h * 3600 + m * 60 + s))"
    using to_double_nat [OF assms(1)] by (simp add: js_add_def)
  show ?thesis
    unfolding timeFormula_def to_double_nat [OF b(1)] to_double_nat [OF b(2)] to_double_nat [OF b(3)]
      to_double_nat [OF assms(2)] 1 2 3 4 by (rule refl)
qed

lemma SubtitleList_parseTime_eq: "SubtitleList_parseTime = VideoPlayer_parseTime"
  by (rule ext) (simp only: SubtitleList_parseTime_def VideoPlayer_parseTime_def)

lemma js_div_zero_1000: "js_div (Fin 0) (Fin 1000) = Fin 0"
  by (simp add: js_div_def to_double_0)

lemma timeFormula_whole:
  assumes "h * 3600 + m * 60 + s < 2 ^ 53"
  shows "timeFormula h m s 0 = Fin (of_nat (h * 3600 + m * 60 + s))"
proof -
  let ?N = "h * 3600 + m * 60 + s"
  have "timeFormula h m s 0 = js_add (Fin (of_nat ?N)) (js_div (Fin (of_nat 0)) (Fin 1000))"
    using assms by (rule timeFormula_exact) simp
  also have "\<dots> = to_double (of_nat ?N)"
    by (simp add: js_div_zero_1000 js_add_def)
  also have "\<dots> = Fin (of_nat ?N)" using assms by (rule to_double_nat)
  finally show ?thesis .
qed

lemma digit_chars:
  "isRadixDigit 10 CHR ''0''" "isRadixDigit 10 CHR ''1''" "isRadixDigit 10 CHR ''2''"
  "isRadixDigit 10 CHR ''3''" "isRadixDigit 10 CHR ''4''" "isRadixDigit 10 CHR ''5''"
  "isRadixDigit 10 CHR ''6''" "isRadixDigit 10 CHR ''7''" "isRadixDigit 10 CHR ''8''"
  "isRadixDigit 10 CHR ''9''"
  by (simp_all add: isRadixDigit_def digitValue_def)

lemma digit_string_values:
  "radixValue 10 ''00'' = 0" "radixValue 10 ''01'' = 1" "radixValue 10 ''02'' = 2"
  "radixValue 10 ''03'' = 3" "radixValue 10 ''04'' = 4" "radixValue 10 ''06'' = 6"
  "radixValue 10 ''000'' = 0" "radixValue 10 ''500'' = 500" "radixValue 10 [] = 0"
  by (simp_all add: radixValue_def digitValue_def)

lemma parseTime_examples:
  "VideoPlayer_parseTime ''00:00:00,000'' = Fin 0"
  "VideoPlayer_parseTime ''00:00:01,000'' = Fin 1"
  "VideoPlayer_parseTime ''00:00:03,000'' = Fin 3"
  "VideoPlayer_parseTime ''00:00:04,000'' = Fin 4"
  "VideoPlayer_parseTime ''00:00:06,000'' = Fin 6"
  "VideoPlayer_parseTime ''00:00:01,'' = Fin 1"
  using parseTime_with_ms [of "''00''" "''00''" "''00''" "''000''"]
    parseTime_with_ms [of "''00''" "''00''" "''01''" "''000''"]
    parseTime_with_ms [of "''00''" "''00''" "''03''" "''000''"]
    parseTime_with_ms [of "''00''" "''00''" "''04''" "''000''"]
    parseTime_with_ms [of "''00''" "''00''" "''06''" "''000''"]
    parseTime_with_ms [of "''00''" "''00''" "''01''" "[]"]
  by (simp_all add: digit_chars digit_string_values timeFormula_whole)

lemma parseTime_example_half: "VideoPlayer_parseTime ''01:02:03,500'' = Fin (7447 / 2)"
proof -
  have "timeFormula 1 2 3 500
      = js_add (Fin (of_nat (1 * 3600 + 2 * 60 + 3))) (js_div (Fin (of_nat 500)) (Fin 1000))"
    by (rule timeFormula_exact) simp_all
  also have "\<dots> = Fin (7447 / 2)"
    by (simp add: js_div_def js_add_def to_double_half to_double_7447_2)
  finally show ?thesis
    using parseTime_with_ms [of "''01''" "''02''" "''03''" "''500''"]
    by (simp add: digit_chars digit_string_values)
qed

lemma activeSubtitle_find: "activeSubtitle t subs = find (inRange t) subs"
proof -
  have "(\<lambda>sub. let start = VideoPlayer_parseTime (startTime sub);
                    end' = VideoPlayer_parseTime (endTime sub)
                in js_ge t start \<and> js_le t end') = inRange t"
    by (rule ext) (simp add: inRange_def js_ge_def)
  then show ?thesis by (simp add: activeSubtitle_def)
qed

lemma inRange_Fin:
  "VideoPlayer_parseTime (startTime c) = Fin a \<Longrightarrow> VideoPlayer_parseTime (endTime c) = Fin b
    \<Longrightarrow> inRange (Fin x) c \<longleftrightarrow> a \<le> x \<and> x \<le> b"
  by (simp add: inRange_def js_le_def)

section \<open>Claims about the time codec and the active caption\<close>

text \<open>
  C2. On a timestamp \<open>HH:MM:SS,mmm\<close> whose components are strings of decimal digits,
  \<open>parseTime\<close> (of either component file) returns \<open>h * 3600 + m * 60 + s + ms / 1000\<close>
  computed in binary64 (\<open>timeFormula\<close>), the components being read in base ten. An empty
  milliseconds component, and a missing one (no comma at all), count as zero. As long as the
  whole seconds and the milliseconds stay below \<open>2 ^ 53\<close>, which the two- and three-digit
  components of the format always do, the whole seconds are exact and only the division by
  1000 and the last addition round. In particular \<open>01:02:03,500\<close> gives 3723.5,
  \<open>00:00:00,000\<close> gives 0 and \<open>00:00:01,\<close> gives 1.
\<close>

theorem parseTime_formula:
  assumes "list_all (isRadixDigit 10) h" "list_all (isRadixDigit 10) m"
    "list_all (isRadixDigit 10) s" "list_all (isRadixDigit 10) ms"
  shows
    "VideoPlayer_parseTime (h @ '':'' @ m @ '':'' @ s @ '','' @ ms)
       = timeFormula (radixValue 10 h) (radixValue 10 m) (radixValue 10 s) (radixValue 10 ms)
     \<and> SubtitleList_parseTime (h @ '':'' @ m @ '':'' @ s @ '','' @ ms)
       = timeFormula (radixValue 10 h) (radixValue 10 m) (radixValue 10 s) (radixValue 10 ms)
     \<and> VideoPlayer_parseTime (h @ '':'' @ m @ '':'' @ s @ '','')
       = timeFormula (radixValue 10 h) (radixValue 10 m) (radixValue 10 s) 0
     \<and> VideoPlayer_parseTime (h @ '':'' @ m @ '':'' @ s)
       = timeFormula (radixValue 10 h) (radixValue 10 m) (radixValue 10 s) 0
     \<and> (radixValue 10 h * 3600 + radixValue 10 m * 60 + radixValue 10 s < 2 ^ 53
          \<and> radixValue 10 ms < 2 ^ 53 \<longrightarrow>
          timeFormula (radixValue 10 h) (radixValue 10 m) (radixValue 10 s) (radixValue 10 ms)
            = js_add (Fin (of_nat (radixValue 10 h * 3600 + radixValue 10 m * 60 + radixValue 10 s)))
                     (js_div (Fin (of_nat (radixValue 10 ms))) (Fin 1000))
          \<and> timeFormula (radixValue 10 h) (radixValue 10 m) (radixValue 10 s) 0
            = Fin (of_nat (radixValue 10 h * 3600 + radixValue 10 m * 60 + radixValue 10 s)))
     \<and> VideoPlayer_parseTime ''01:02:03,500'' = Fin (7447 / 2)
     \<and> VideoPlayer_parseTime ''00:00:00,000'' = Fin 0
     \<and> VideoPlayer_parseTime ''00:00:01,'' = Fin 1"
proof -
  have e: "list_all (isRadixDigit 10) []" by simp
  have 1: "VideoPlayer_parseTime (h @ '':'' @ m @ '':'' @ s @ '','' @ ms)
       = timeFormula (radixValue 10 h) (radixValue 10 m) (radixValue 10 s) (radixValue 10 ms)"
    using assms by (rule parseTime_with_ms)
  have 2: "VideoPlayer_parseTime (h @ '':'' @ m @ '':'' @ s @ '','')
       = timeFormula (radixValue 10 h) (radixValue 10 m) (radixValue 10 s) 0"
    using parseTime_with_ms [OF assms(1-3) e] by (simp add: digit_string_values)
  have 3: "VideoPlayer_parseTime (h @ '':'' @ m @ '':'' @ s)
       = timeFormula (radixValue 10 h) (radixValue 10 m) (radixValue 10 s) 0"
    using assms(1-3) by (rule parseTime_without_ms)
  show ?thesis
    unfolding SubtitleList_parseTime_eq
    using 1 2 3 timeFormula_exact timeFormula_whole parseTime_example_half parseTime_examples(1,6)
    by blast
qed

theorem parseTime_formula_witness:
  "list_all (isRadixDigit 10) ''12'' \<and> list_all (isRadixDigit 10) ''34''
   \<and> list_all (isRadixDigit 10) ''56'' \<and> list_all (isRadixDigit 10) ''789''
   \<and> VideoPlayer_parseTime ''12:34:56,789'' = Fin (6225543275802001 / 137438953472)"
proof -
  have d: "list_all (isRadixDigit 10) ''12''" "list_all (isRadixDigit 10) ''34''"
    "list_all (isRadixDigit 10) ''56''" "list_all (isRadixDigit 10) ''789''"
    by (simp_all add: digit_chars)
  have v: "radixValue 10 ''12'' = 12" "radixValue 10 ''34'' = 34" "radixValue 10 ''56'' = 56"
    "radixValue 10 ''789'' = 789"
    by (simp_all add: radixValue_def digitValue_def)
  have "js_add (Fin 45296) (js_div (Fin 789) (Fin 1000)) = Fin (6225543275802001 / 137438953472)"
    by (simp add: js_add_def js_div_def to_double_eval)
  then show ?thesis
    using parseTime_formula [OF d] d by (simp add: v)
qed

text \<open>
  C9. The helper \<open>parseTime\<close> of the video player and the one of the subtitle list
  return the same value on every string.
\<close>

theorem parseTime_same: "SubtitleList_parseTime timeStr = VideoPlayer_parseTime timeStr"
  by (simp only: SubtitleList_parseTime_def VideoPlayer_parseTime_def)

text \<open>
  C1. The active caption is the first caption, in list order, whose range contains the
  playback time, and there is none exactly when no caption's range contains it. The range
  is \<open>[start, end]\<close> with both ends included, the ends being the parsed timestamps. For
  the captions 1 s to 3 s and 4 s to 6 s, the active caption at 2.0 is the first, at 3.5
  there is none, and at 6.0 it is the second.
\<close>

theorem activeSubtitle_first_match:
  "(activeSubtitle t subs = None \<longleftrightarrow> (\<forall>sub\<in>set subs. \<not> inRange t sub))
   \<and> (activeSubtitle t subs = Some c \<longleftrightarrow>
        (\<exists>i<length subs. subs ! i = c \<and> inRange t c \<and> (\<forall>j<i. \<not> inRange t (subs ! j))))
   \<and> (VideoPlayer_parseTime (startTime c) = Fin a \<and> VideoPlayer_parseTime (endTime c) = Fin b
        \<longrightarrow> (inRange (Fin x) c \<longleftrightarrow> a \<le> x \<and> x \<le> b))
   \<and> activeSubtitle (Fin 2)
        [\<lparr>startTime = ''00:00:01,000'', endTime = ''00:00:03,000'', originalText = o1, translatedText = t1\<rparr>,
         \<lparr>startTime = ''00:00:04,000'', endTime = ''00:00:06,000'', originalText = o2, translatedText = t2\<rparr>]
       = Some \<lparr>startTime = ''00:00:01,000'', endTime = ''00:00:03,000'', originalText = o1, translatedText = t1\<rparr>
   \<and> activeSubtitle (Fin (7 / 2))
        [\<lparr>startTime = ''00:00:01,000'', endTime = ''00:00:03,000'', originalText = o1, translatedText = t1\<rparr>,
         \<lparr>startTime = ''00:00:04,000'', endTime = ''00:00:06,000'', originalText = o2, translatedText = t2\<rparr>]
       = None
   \<and> activeSubtitle (Fin 6)
        [\<lparr>startTime = ''00:00:01,000'', endTime = ''00:00:03,000'', originalText = o1, translatedText = t1\<rparr>,
         \<lparr>startTime = ''00:00:04,000'', endTime = ''00:00:06,000'', originalText = o2, translatedText = t2\<rparr>]
       = Some \<lparr>startTime = ''00:00:04,000'', endTime = ''00:00:06,000'', originalText = o2, translatedText = t2\<rparr>"
proof -
  have n: "activeSubtitle t subs = None \<longleftrightarrow> (\<forall>sub\<in>set subs. \<not> inRange t sub)"
    by (auto simp: activeSubtitle_find find_None_iff)
  have s: "activeSubtitle t subs = Some c \<longleftrightarrow>
        (\<exists>i<length subs. subs ! i = c \<and> inRange t c \<and> (\<forall>j<i. \<not> inRange t (subs ! j)))"
    unfolding activeSubtitle_find find_Some_iff by auto
  have r: "VideoPlayer_parseTime (startTime c) = Fin a \<and> VideoPlayer_parseTime (endTime c) = Fin b
        \<longrightarrow> (inRange (Fin x) c \<longleftrightarrow> a \<le> x \<and> x \<le> b)"
    using inRange_Fin by blast
  have e: "inRange (Fin 2) \<lparr>startTime = ''00:00:01,000'', endTime = ''00:00:03,000'', originalText = o1, translatedText = t1\<rparr>"
    "\<not> inRange (Fin (7 / 2)) \<lparr>startTime = ''00:00:01,000'', endTime = ''00:00:03,000'', originalText = o1, translatedText = t1\<rparr>"
    "\<not> inRange (Fin (7 / 2)) \<lparr>startTime = ''00:00:04,000'', endTime = ''00:00:06,000'', originalText = o2, translatedText = t2\<rparr>"
    "\<not> inRange (Fin 6) \<lparr>startTime = ''00:00:01,000'', endTime = ''00:00:03,000'', originalText = o1, translatedText = t1\<rparr>"
    "inRange (Fin 6) \<lparr>startTime = ''00:00:04,000'', endTime = ''00:00:06,000'', originalText = o2, translatedText = t2\<rparr>"
    by (simp_all add: inRange_def parseTime_examples js_le_def)
  show ?thesis
    unfolding activeSubtitle_find [of "Fin _"] using n s r e
    by (simp only: find.simps if_True if_False simp_thms)
qed


theorem activeSubtitle_first_match_witness:
  "activeSubtitle (Fin 5)
     [\<lparr>startTime = ''00:00:01,000'', endTime = ''00:00:03,000'', originalText = ''Hi'', translatedText = ''A''\<rparr>,
      \<lparr>startTime = ''00:00:04,000'', endTime = ''00:00:06,000'', originalText = ''Yo'', translatedText = ''B''\<rparr>]
     = Some \<lparr>startTime = ''00:00:04,000'', endTime = ''00:00:06,000'', originalText = ''Yo'', translatedText = ''B''\<rparr>
   \<and> (\<exists>i<2.
         [\<lparr>startTime = ''00:00:01,000'', endTime = ''00:00:03,000'', originalText = ''Hi'', translatedText = ''A''\<rparr>,
          \<lparr>startTime = ''00:00:04,000'', endTime = ''00:00:06,000'', originalText = ''Yo'', translatedText = ''B''\<rparr>] ! i
         = \<lparr>startTime = ''00:00:04,000'', endTime = ''00:00:06,000'', originalText = ''Yo'', translatedText = ''B''\<rparr>
       \<and> (\<forall>j<i. \<not> inRange (Fin 5)
          ([\<lparr>startTime = ''00:00:01,000'', endTime = ''00:00:03,000'', originalText = ''Hi'', translatedText = ''A''\<rparr>,
            \<lparr>startTime = ''00:00:04,000'', endTime = ''00:00:06,000'', originalText = ''Yo'', translatedText = ''B''\<rparr>] ! j)))"
proof -
  let ?A = "\<lparr>startTime = ''00:00:01,000'', endTime = ''00:00:03,000'', originalText = ''Hi'', translatedText = ''A''\<rparr>"
  let ?B = "\<lparr>startTime = ''00:00:04,000'', endTime = ''00:00:06,000'', originalText = ''Yo'', translatedText = ''B''\<rparr>"
  have e: "\<not> inRange (Fin 5) ?A" "inRange (Fin 5) ?B"
    by (simp_all add: inRange_def parseTime_examples js_le_def)
  then have a: "activeSubtitle (Fin 5) [?A, ?B] = Some ?B"
    by (simp add: activeSubtitle_find)
  have l: "length [?A, ?B] = 2" by simp
  from a activeSubtitle_first_match [of "Fin 5" "[?A, ?B]" ?B]
  have "\<exists>i<length [?A, ?B]. [?A, ?B] ! i = ?B \<and> inRange (Fin 5) ?B
          \<and> (\<forall>j<i. \<not> inRange (Fin 5) ([?A, ?B] ! j))"
    by blast
  then have "\<exists>i<2. [?A, ?B] ! i = ?B \<and> (\<forall>j<i. \<not> inRange (Fin 5) ([?A, ?B] ! j))"
    unfolding l by blast
  with a show ?thesis by blast
qed

section \<open>Claim about the export\<close>

lemma mapIndexed_nth: "mapIndexed f xs = map (\<lambda>i. f (xs ! i) i) [0..<length xs]"
proof (rule nth_equalityI)
  show "length (mapIndexed f xs) = length (map (\<lambda>i. f (xs ! i) i) [0..<length xs])"
    by (simp add: mapIndexed_def)
next
  fix i
  assume "i < length (mapIndexed f xs)"
  then have i: "i < length xs" by (simp add: mapIndexed_def)
  then show "mapIndexed f xs ! i = map (\<lambda>i. f (xs ! i) i) [0..<length xs] ! i"
    by (simp add: mapIndexed_def nth_enumerate_eq)
qed

lemma digitChar_digit:
  assumes "d < 10"
  shows "isRadixDigit 10 (digitChar d) \<and> digitValue (digitChar d) = Some d"
proof -
  from assms have "d = 0 \<or> d = 1 \<or> d = 2 \<or> d = 3 \<or> d = 4 \<or> d = 5 \<or> d = 6 \<or> d = 7 \<or> d = 8
      \<or> d = 9" by arith
  then show ?thesis
    by (elim disjE) (simp_all add: digitChar_def isRadixDigit_def digitValue_def)
qed

lemma radixValue_snoc:
  "radixValue R (ds @ [c]) = radixValue R ds * R + (case digitValue c of None \<Rightarrow> 0 | Some d \<Rightarrow> d)"
  by (simp add: radixValue_def)

lemma toStringNat_decimal:
  "list_all (isRadixDigit 10) (toStringNat n) \<and> radixValue 10 (toStringNat n) = n"
proof (induction n rule: toStringNat.induct)
  case (1 n)
  show ?case
  proof (cases "n < 10")
    case True
    then show ?thesis
      using digitChar_digit [of n]
      by (subst (1 2) toStringNat.simps) (simp add: radixValue_def)
  next
    case False
    have d: "n mod 10 < 10" by simp
    from False 1 have ih: "list_all (isRadixDigit 10) (toStringNat (n div 10))"
      "radixValue 10 (toStringNat (n div 10)) = n div 10" by simp_all
    show ?thesis
      using False ih digitChar_digit [OF d]
      by (subst (1 2) toStringNat.simps) (simp add: radixValue_snoc)
  qed
qed

lemma toStringNat_small: "toStringNat (Suc 0) = ''1''" "toStringNat (Suc (Suc 0)) = ''2''"
  by (simp_all add: toStringNat.simps digitChar_def)

text \<open>
  C3. For a non-empty caption list the export offers one text, as \<open>subtitles.srt\<close>: the
  blocks of the captions joined by a line feed, the block of the caption at position
  \<open>i\<close> (from 0) being the decimal digits of \<open>i + 1\<close>, a line feed, the start time,
  \<open> --> \<close>, the end time, a line feed, the translated text, a line feed, the original
  text and a line feed, with the timestamps as they are. Each block ends in a line feed, so
  the joining line feed leaves a blank line between two blocks. The single caption of the
  specification, whose translated text is the two characters U+4F60 U+597D, gives exactly
  its block.
\<close>

theorem downloadSRT_blocks:
  assumes "subs \<noteq> []"
  shows
    "downloadSRT subs =
       [DownloadBlob ''subtitles.srt'' ''text/plain''
          (join [CHR 0x0A]
             (map (\<lambda>i. toStringNat (i + 1) @ [CHR 0x0A]
                        @ startTime (subs ! i) @ '' --> '' @ endTime (subs ! i) @ [CHR 0x0A]
                        @ translatedText (subs ! i) @ [CHR 0x0A]
                        @ originalText (subs ! i) @ [CHR 0x0A])
                  [0..<length subs]))]
     \<and> list_all (isRadixDigit 10) (toStringNat (i + 1))
     \<and> radixValue 10 (toStringNat (i + 1)) = i + 1
     \<and> join [CHR 0x0A] [b] = b
     \<and> join [CHR 0x0A] (b # c # bs) = b @ [CHR 0x0A] @ join [CHR 0x0A] (c # bs)
     \<and> downloadSRT
          [\<lparr>startTime = ''00:00:01,000'', endTime = ''00:00:02,000'', originalText = ''Hi'',
            translatedText = [CHR 0xE4, CHR 0xBD, CHR 0xA0, CHR 0xE5, CHR 0xA5, CHR 0xBD]\<rparr>] =
       [DownloadBlob ''subtitles.srt'' ''text/plain''
          (''1'' @ [CHR 0x0A] @ ''00:00:01,000 --> 00:00:02,000'' @ [CHR 0x0A]
           @ [CHR 0xE4, CHR 0xBD, CHR 0xA0, CHR 0xE5, CHR 0xA5, CHR 0xBD] @ [CHR 0x0A]
           @ ''Hi'' @ [CHR 0x0A])]"
proof -
  have "downloadSRT subs =
       [DownloadBlob ''subtitles.srt'' ''text/plain''
          (join [CHR 0x0A] (map (\<lambda>i. srtBlock (subs ! i) i) [0..<length subs]))]"
    using assms by (simp add: downloadSRT_def srtContent_def mapIndexed_nth)
  then have 1: "downloadSRT subs =
       [DownloadBlob ''subtitles.srt'' ''text/plain''
          (join [CHR 0x0A]
             (map (\<lambda>i. toStringNat (i + 1) @ [CHR 0x0A]
                        @ startTime (subs ! i) @ '' --> '' @ endTime (subs ! i) @ [CHR 0x0A]
                        @ translatedText (subs ! i) @ [CHR 0x0A]
                        @ originalText (subs ! i) @ [CHR 0x0A])
                  [0..<length subs]))]"
    by (simp only: srtBlock_def)
  have 2: "downloadSRT
          [\<lparr>startTime = ''00:00:01,000'', endTime = ''00:00:02,000'', originalText = ''Hi'',
            translatedText = [CHR 0xE4, CHR 0xBD, CHR 0xA0, CHR 0xE5, CHR 0xA5, CHR 0xBD]\<rparr>] =
       [DownloadBlob ''subtitles.srt'' ''text/plain''
          (''1'' @ [CHR 0x0A] @ ''00:00:01,000 --> 00:00:02,000'' @ [CHR 0x0A]
           @ [CHR 0xE4, CHR 0xBD, CHR 0xA0, CHR 0xE5, CHR 0xA5, CHR 0xBD] @ [CHR 0x0A]
           @ ''Hi'' @ [CHR 0x0A])]"
    by (simp add: downloadSRT_def srtContent_def mapIndexed_def srtBlock_def toStringNat_small)
  show ?thesis using 1 2 toStringNat_decimal [of "i + 1"] by simp
qed

theorem downloadSRT_blocks_witness:
  "[\<lparr>startTime = ''a'', endTime = ''b'', originalText = ''o'', translatedText = ''t''\<rparr>,
    \<lparr>startTime = ''c'', endTime = ''d'', originalText = ''p'', translatedText = ''u''\<rparr>] \<noteq> []
   \<and> downloadSRT
       [\<lparr>startTime = ''a'', endTime = ''b'', originalText = ''o'', translatedText = ''t''\<rparr>,
        \<lparr>startTime = ''c'', endTime = ''d'', originalText = ''p'', translatedText = ''u''\<rparr>] =
     [DownloadBlob ''subtitles.srt'' ''text/plain''
        (''1'' @ [CHR 0x0A] @ ''a --> b'' @ [CHR 0x0A] @ ''t'' @ [CHR 0x0A] @ ''o'' @ [CHR 0x0A]
         @ [CHR 0x0A]
         @ ''2'' @ [CHR 0x0A] @ ''c --> d'' @ [CHR 0x0A] @ ''u'' @ [CHR 0x0A] @ ''p'' @ [CHR 0x0A])]"
proof -
  let ?s = "[\<lparr>startTime = ''a'', endTime = ''b'', originalText = ''o'', translatedText = ''t''\<rparr>,
    \<lparr>startTime = ''c'', endTime = ''d'', originalText = ''p'', translatedText = ''u''\<rparr>]"
  have n: "?s \<noteq> []" by simp
  have u: "[0..<length ?s] = [0, 1]" by (simp add: upt_rec)
  from downloadSRT_blocks [OF n] show ?thesis
    unfolding u by (simp add: toStringNat_small)
qed

section \<open>Claim about the seek guard\<close>

lemma round_even_le: "x \<le> of_int k \<Longrightarrow> round_even x \<le> k"
proof -
  assume a: "x \<le> of_int k"
  show ?thesis
  proof (cases "x = of_int k")
    case True
    then show ?thesis by (simp add: round_even_int)
  next
    case False
    with a have "x < of_int k" by simp
    then have "\<lfloor>x\<rfloor> < k" by (simp add: floor_less_iff)
    then show ?thesis by (simp add: round_even_def Let_def)
  qed
qed

lemma round_even_ge: "of_int k \<le> x \<Longrightarrow> k \<le> round_even x"
proof -
  assume "of_int k \<le> x"
  then have "k \<le> \<lfloor>x\<rfloor>" by (simp add: le_floor_iff)
  then show ?thesis by (simp add: round_even_def Let_def)
qed

lemma round_even_gt_half: "of_int k + 1 / 2 < x \<Longrightarrow> k + 1 \<le> round_even x"
proof -
  assume a: "of_int k + 1 / 2 < x"
  then have "of_int k \<le> x" by simp
  then have f: "k \<le> \<lfloor>x\<rfloor>" by (simp add: le_floor_iff)
  show ?thesis
  proof (cases "k = \<lfloor>x\<rfloor>")
    case True
    with a have "1 / 2 < x - of_int \<lfloor>x\<rfloor>" by simp
    then show ?thesis using True by (simp add: round_even_def Let_def)
  next
    case False
    with f have "k + 1 \<le> \<lfloor>x\<rfloor>" by simp
    then show ?thesis by (simp add: round_even_def Let_def)
  qed
qed

lemma pow2_neg: "e \<le> 0 \<Longrightarrow> pow2 e = 1 / 2 ^ nat (- e)"
  by (cases "e = 0") (simp_all add: pow2_def)

lemma pow2_pos: "0 < pow2 e"
  by (simp add: pow2_def)

lemma to_double_pos_le_half:
  assumes "0 < x" "x \<le> 1 / 2"
  shows "\<exists>r. to_double_pos x = Fin r \<and> 0 \<le> r \<and> r \<le> 1 / 2"
proof -
  define e where "e = max (binexp x) (- 1022)"
  from assms have "binexp x \<le> 0" by (simp add: binexp_def)
  then have e: "e \<le> 0" by (simp add: e_def)
  define k where "k = nat (52 - e)"
  have k: "1 \<le> k" using e by (simp add: k_def)
  have q: "pow2 (e - 52) = 1 / 2 ^ k" using e by (simp add: pow2_neg k_def)
  define n where "n = round_even (x / (1 / 2 ^ k))"
  have "x / (1 / 2 ^ k) = x * 2 ^ k" by simp
  also have "\<dots> \<le> (1 / 2) * 2 ^ k" using assms(2) by (simp add: mult_right_mono)
  also have "\<dots> = 2 ^ (k - 1)" using k by (cases k) simp_all
  also have "\<dots> = rat_of_int (2 ^ (k - 1))" by simp
  finally have "n \<le> 2 ^ (k - 1)" unfolding n_def by (rule round_even_le)
  then have "rat_of_int n \<le> rat_of_int (2 ^ (k - 1))" by (simp only: of_int_le_iff)
  then have "rat_of_int n * (1 / 2 ^ k) \<le> 2 ^ (k - 1) * (1 / 2 ^ k)"
    by (simp add: divide_right_mono)
  also have "\<dots> = 1 / 2" using k by (cases k) simp_all
  finally have up: "rat_of_int n * (1 / 2 ^ k) \<le> 1 / 2" .
  have "rat_of_int 0 \<le> x / (1 / 2 ^ k)" using assms(1) by simp
  then have "0 \<le> n" unfolding n_def by (rule round_even_ge)
  then have lo: "0 \<le> rat_of_int n * (1 / 2 ^ k)" by simp
  have "\<not> pow2 1024 \<le> rat_of_int n * (1 / 2 ^ k)"
  proof
    assume "pow2 1024 \<le> rat_of_int n * (1 / 2 ^ k)"
    then have "pow2 1024 \<le> 1 / 2" using up by (rule order_trans)
    then show False by (simp add: pow2_def)
  qed
  then have "to_double_pos x = Fin (rat_of_int n * (1 / 2 ^ k))"
    unfolding to_double_pos_def e_def [symmetric] Let_def q n_def by simp
  with up lo show ?thesis by blast
qed


lemma bitlength_lower: "0 < n \<Longrightarrow> 2 ^ (bitlength n - 1) \<le> n"
proof (induction n rule: bitlength.induct)
  case (1 n)
  show ?case
  proof (cases "n div 2 = 0")
    case True
    then have "bitlength (n div 2) = 0" by (simp add: bitlength.simps)
    then have "bitlength n = 1" using 1(2) by (subst bitlength.simps) simp
    then show ?thesis using 1(2) by simp
  next
    case False
    then have "2 ^ (bitlength (n div 2) - 1) \<le> n div 2" using 1 by simp
    moreover have "0 < bitlength (n div 2)" using False by (simp add: bitlength_pos)
    moreover have "bitlength n = Suc (bitlength (n div 2))"
      using 1(2) by (subst bitlength.simps) simp
    ultimately have "2 ^ (bitlength n - 1) \<le> 2 * (n div 2)"
      by (cases "bitlength (n div 2)") simp_all
    also have "\<dots> \<le> n" by simp
    finally show ?thesis .
  qed
qed

lemma to_double_pos_gt_half:
  assumes "1 / 2 + 1 / 2 ^ 54 < x"
  shows "to_double_pos x = PInf \<or> (\<exists>r. to_double_pos x = Fin r \<and> 1 / 2 < r)"
proof -
  have x0: "0 < x" using assms by (rule less_trans [rotated]) simp
  define e where "e = max (binexp x) (- 1022)"
  define n where "n = round_even (x / pow2 (e - 52))"
  have "1 / 2 < rat_of_int n * pow2 (e - 52)"
  proof (cases "x < 1")
    case True
    have "1 < 1 / x" using True x0 by simp
    moreover have "1 / x < 2"
    proof -
      have "1 / 2 < x" using assms by (rule less_trans [rotated]) simp
      then show ?thesis using x0 by (simp add: field_simps)
    qed
    ultimately have "\<lceil>1 / x\<rceil> = 2" by (simp add: ceiling_eq_iff) 
    then have "binexp x = - 1" using True by (simp add: binexp_def bitlength.simps)
    then have e: "e = - 1" by (simp add: e_def)
    have q: "pow2 (e - 52) = 1 / 2 ^ 53" unfolding e by (simp add: pow2_def)
    have "rat_of_int (2 ^ 52) + 1 / 2 = (1 / 2 + 1 / 2 ^ 54) * 2 ^ 53" by simp
    also have "\<dots> < x * 2 ^ 53" using assms by (simp only: mult_less_cancel_right_pos zero_less_power zero_less_numeral)
    also have "\<dots> = x / pow2 (e - 52)" unfolding q by simp
    finally have "2 ^ 52 + 1 \<le> n" unfolding n_def by (rule round_even_gt_half)
    then have "rat_of_int (2 ^ 52 + 1) \<le> rat_of_int n" by (simp only: of_int_le_iff)
    then have "rat_of_int (2 ^ 52 + 1) * (1 / 2 ^ 53) \<le> rat_of_int n * (1 / 2 ^ 53)"
      by (simp add: divide_right_mono)
    moreover have "1 / 2 < rat_of_int (2 ^ 52 + 1) * (1 / 2 ^ 53)" by simp
    ultimately show ?thesis unfolding q by (rule less_le_trans [rotated])
  next
    case False
    then have x1: "1 \<le> x" by simp
    define b where "b = bitlength (nat \<lfloor>x\<rfloor>)"
    have fl: "0 < nat \<lfloor>x\<rfloor>" using x1 by simp
    have b: "0 < b" using fl by (simp add: b_def bitlength_pos)
    have "binexp x = int b - 1" using x1 by (simp add: binexp_def b_def)
    then have e: "e = int b - 1" using b by (simp add: e_def)
    have low: "2 ^ (b - 1) \<le> nat \<lfloor>x\<rfloor>" unfolding b_def using fl by (rule bitlength_lower)
    have "(2::rat) ^ (b - 1) = rat_of_nat (2 ^ (b - 1))" by simp
    also have "\<dots> \<le> rat_of_nat (nat \<lfloor>x\<rfloor>)"
      using low by (simp only: of_nat_le_iff)
    also have "\<dots> = rat_of_int \<lfloor>x\<rfloor>" using x1 by simp
    also have "\<dots> \<le> x" by simp
    finally have xl: "2 ^ (b - 1) \<le> x" .
    have "1 \<le> rat_of_int n * pow2 (e - 52)"
    proof (cases "b \<le> 53")
      case True
      define k where "k = 53 - b"
      have q: "pow2 (e - 52) = 1 / 2 ^ k"
        using True b unfolding e
        by (auto simp: pow2_def k_def nat_diff_distrib intro: arg_cong [where f = "\<lambda>j. (2::rat) ^ j"])
      have "rat_of_int (2 ^ k) = 1 * 2 ^ k" by simp
      also have "\<dots> \<le> x * 2 ^ k" using x1 by (simp only: mult_le_cancel_right_pos zero_less_power zero_less_numeral)
      also have "\<dots> = x / pow2 (e - 52)" unfolding q by simp
      finally have "2 ^ k \<le> n" unfolding n_def by (rule round_even_ge)
      then have "rat_of_int (2 ^ k) \<le> rat_of_int n" by (simp only: of_int_le_iff)
      then have "rat_of_int (2 ^ k) * (1 / 2 ^ k) \<le> rat_of_int n * (1 / 2 ^ k)"
        by (simp add: divide_right_mono)
      then show ?thesis unfolding q by simp
    next
      case False
      define k where "k = b - 53"
      have bk: "b - 1 = 52 + k" using False by (simp add: k_def)
      have q: "pow2 (e - 52) = 2 ^ k"
        using False unfolding e
        by (auto simp: pow2_def k_def nat_diff_distrib intro: arg_cong [where f = "\<lambda>j. (2::rat) ^ j"])
      have "rat_of_int (2 ^ 52) = 2 ^ (b - 1) / 2 ^ k" unfolding bk by (simp add: power_add)
      also have "\<dots> \<le> x / 2 ^ k" using xl by (simp add: divide_right_mono)
      also have "\<dots> = x / pow2 (e - 52)" unfolding q by simp
      finally have "2 ^ 52 \<le> n" unfolding n_def by (rule round_even_ge)
      then have "1 \<le> n" by simp
      then have n1: "1 \<le> rat_of_int n" by simp
      have "(1::rat) \<le> 2 ^ k" by simp
      with n1 have "1 * 1 \<le> rat_of_int n * 2 ^ k" by (rule mult_mono) (use n1 in simp_all)
      then show ?thesis unfolding q by simp
    qed
    then show ?thesis by simp
  qed
  then show ?thesis
    unfolding to_double_pos_def e_def [symmetric] Let_def n_def by simp
qed


lemma to_double_pos_nonneg:
  assumes "0 < x"
  shows "to_double_pos x = PInf \<or> (\<exists>r. to_double_pos x = Fin r \<and> 0 \<le> r)"
proof -
  define q where "q = pow2 (max (binexp x) (- 1022) - 52)"
  have q: "0 < q" by (simp add: q_def pow2_pos)
  then have "rat_of_int 0 \<le> x / q" using assms by simp
  then have "0 \<le> round_even (x / q)" by (rule round_even_ge)
  then have "0 \<le> rat_of_int (round_even (x / q)) * q" using q by simp
  then show ?thesis unfolding to_double_pos_def Let_def q_def by simp
qed

lemma abs_sub_Fin:
  "Math_abs (js_sub (Fin a) (Fin b)) = (if a = b then Fin 0 else to_double_pos \<bar>a - b\<bar>)"
proof (cases "a = b")
  case True
  then show ?thesis by (simp add: js_sub_def js_neg_def js_add_def to_double_def Math_abs_def)
next
  case False
  then have p: "0 < \<bar>a - b\<bar>" by simp
  have s: "js_sub (Fin a) (Fin b) = to_double (a - b)"
    by (simp add: js_sub_def js_neg_def js_add_def)
  from to_double_pos_nonneg [OF p]
  have m: "Math_abs (to_double_pos \<bar>a - b\<bar>) = to_double_pos \<bar>a - b\<bar>"
    by (auto simp: Math_abs_def)
  have n: "Math_abs (js_neg v) = Math_abs v" for v
    by (cases v) (simp_all add: Math_abs_def js_neg_def)
  show ?thesis
  proof (cases "0 < a - b")
    case True
    then show ?thesis using False m unfolding s by (simp add: to_double_def)
  next
    case neg: False
    with False have "\<bar>a - b\<bar> = - (a - b)" by simp
    then show ?thesis using False neg m unfolding s by (simp add: to_double_def n)
  qed
qed

lemma seek_within_tolerance:
  assumes "\<bar>a - b\<bar> \<le> 1 / 2"
  shows "syncCurrentTime (Some (Fin a)) (Fin b) = []"
proof (cases "a = b")
  case True
  then show ?thesis by (simp add: syncCurrentTime_def abs_sub_Fin js_gt_def)
next
  case False
  then have "0 < \<bar>a - b\<bar>" by simp
  from to_double_pos_le_half [OF this assms]
  obtain r where "to_double_pos \<bar>a - b\<bar> = Fin r" "r \<le> 1 / 2" by blast
  then show ?thesis using False by (simp add: syncCurrentTime_def abs_sub_Fin js_gt_def)
qed

lemma seek_beyond_tolerance:
  assumes "1 / 2 + 1 / 2 ^ 54 < \<bar>a - b\<bar>"
  shows "syncCurrentTime (Some (Fin a)) (Fin b) = [SetVideoCurrentTime (Fin b)]"
proof -
  have ne: "a \<noteq> b" using assms by auto
  from to_double_pos_gt_half [OF assms]
  have "js_gt (to_double_pos \<bar>a - b\<bar>) (Fin (1 / 2))"
    by (auto simp: js_gt_def)
  then show ?thesis using ne by (simp add: syncCurrentTime_def abs_sub_Fin)
qed

lemma seek_examples:
  "syncCurrentTime (Some (to_double (51 / 5))) (to_double (52 / 5)) = []"
  "syncCurrentTime (Some (to_double (51 / 5))) (Fin 12) = [SetVideoCurrentTime (Fin 12)]"
  by (simp_all add: syncCurrentTime_def js_sub_def js_add_def Math_abs_def js_gt_def to_double_eval)

text \<open>
  C4, as amended. With the media element mounted and reporting the time \<open>p\<close>, a requested
  time \<open>t\<close> is pushed into the player if and only if the binary64 result of
  \<open>|p - t|\<close>, the subtraction rounded to the nearest double, is greater than 0.5.
  Measured in exact arithmetic the guard never pushes a seek when the two times differ by at
  most 0.5, and always does when they differ by more than \<open>0.5 + 2^-54\<close>; for a
  difference between these two bounds the subtraction may round to 0.5, and then no seek is
  pushed. With the player at 10.2, a request for 10.4 pushes no seek and a request for 12.0
  pushes one.
\<close>

theorem seek_guard:
  "syncCurrentTime (Some p) t =
     (if js_gt (Math_abs (js_sub p t)) (Fin (1 / 2)) then [SetVideoCurrentTime t] else [])
   \<and> (syncCurrentTime (Some p) t = [SetVideoCurrentTime t]
        \<longleftrightarrow> js_gt (Math_abs (js_sub p t)) (Fin (1 / 2)))
   \<and> (syncCurrentTime (Some p) t = [] \<longleftrightarrow> \<not> js_gt (Math_abs (js_sub p t)) (Fin (1 / 2)))
   \<and> (\<bar>a - b\<bar> \<le> 1 / 2 \<longrightarrow> syncCurrentTime (Some (Fin a)) (Fin b) = [])
   \<and> (1 / 2 + 1 / 2 ^ 54 < \<bar>a - b\<bar> \<longrightarrow>
        syncCurrentTime (Some (Fin a)) (Fin b) = [SetVideoCurrentTime (Fin b)])
   \<and> syncCurrentTime (Some (to_double (51 / 5))) (to_double (52 / 5)) = []
   \<and> syncCurrentTime (Some (to_double (51 / 5))) (Fin 12) = [SetVideoCurrentTime (Fin 12)]"
  using seek_within_tolerance seek_beyond_tolerance seek_examples
  by (simp add: syncCurrentTime_def)

theorem seek_guard_witness:
  "\<bar>(10 :: rat) - 21 / 2\<bar> \<le> 1 / 2 \<and> syncCurrentTime (Some (Fin 10)) (Fin (21 / 2)) = []
   \<and> 1 / 2 + 1 / 2 ^ 54 < \<bar>(10 :: rat) - 11\<bar>
   \<and> syncCurrentTime (Some (Fin 10)) (Fin 11) = [SetVideoCurrentTime (Fin 11)]"
proof -
  have h1: "\<bar>(10 :: rat) - 21 / 2\<bar> \<le> 1 / 2" by simp
  have h2: "1 / 2 + 1 / 2 ^ 54 < \<bar>(10 :: rat) - 11\<bar>" by simp
  from seek_guard [of "Fin 10" "Fin 11" 10 "21 / 2"] h1
  have a: "syncCurrentTime (Some (Fin 10)) (Fin (21 / 2)) = []" by blast
  from seek_guard [of "Fin 10" "Fin 11" 10 11] h2
  have b: "syncCurrentTime (Some (Fin 10)) (Fin 11) = [SetVideoCurrentTime (Fin 11)]" by blast
  from h1 h2 a b show ?thesis by blast
qed

text \<open>
  The guard is not the comparison of the exact difference with 0.5. The player at 1 and a
  request for \<open>0.5 - 2^-54\<close>, both binary64 values, differ by \<open>0.5 + 2^-54\<close>, which is
  more than 0.5; the subtraction rounds this tie to 0.5, and no seek is pushed.
\<close>

theorem seek_guard_exact_counterexample:
  "to_double 1 = Fin 1
   \<and> to_double (1 / 2 - 1 / 2 ^ 54) = Fin (1 / 2 - 1 / 2 ^ 54)
   \<and> 1 / 2 < \<bar>(1 :: rat) - (1 / 2 - 1 / 2 ^ 54)\<bar>
   \<and> syncCurrentTime (Some (Fin 1)) (Fin (1 / 2 - 1 / 2 ^ 54)) = []
   \<and> \<not> (syncCurrentTime (Some (Fin 1)) (Fin (1 / 2 - 1 / 2 ^ 54))
          = [SetVideoCurrentTime (Fin (1 / 2 - 1 / 2 ^ 54))]
        \<longleftrightarrow> 1 / 2 < \<bar>(1 :: rat) - (1 / 2 - 1 / 2 ^ 54)\<bar>)"
proof -
  have 1: "to_double 1 = Fin 1" by (simp add: to_double_eval)
  have 2: "to_double (1 / 2 - 1 / 2 ^ 54) = Fin (1 / 2 - 1 / 2 ^ 54)"
    by (simp add: to_double_eval)
  have 3: "1 / 2 < \<bar>(1 :: rat) - (1 / 2 - 1 / 2 ^ 54)\<bar>" by simp
  have 4: "syncCurrentTime (Some (Fin 1)) (Fin (1 / 2 - 1 / 2 ^ 54)) = []"
    by (simp add: syncCurrentTime_def js_sub_def js_add_def Math_abs_def js_gt_def to_double_eval)
  from 1 2 3 4 show ?thesis by simp
qed

section \<open>Claims about the file selection and the processing state\<close>

text \<open>
  C6. A selected file larger than 4 GiB is turned down at once: the handler shows the alert
  and does nothing else. Its effects are that alert alone, so no call to the remote provider
  is made, and the application state (file, video URL, caption list, processing state) is
  left as it was; a processing state that was idle is still idle.
\<close>

theorem oversized_file_rejected:
  assumes "MAX_FILE_SIZE < file_size f"
  shows
    "handleFileChange u (Some f) st = (st, [Alert ''File size exceeds the 4GB limit.''])
     \<and> list_all (\<lambda>e. \<not> isRemoteCall e) (snd (handleFileChange u (Some f) st))
     \<and> (status (processingState st) = Idle \<longrightarrow>
          status (processingState (fst (handleFileChange u (Some f) st))) = Idle)
     \<and> MAX_FILE_SIZE = 4 * 2 ^ 30"
  using assms by (simp add: handleFileChange_def isRemoteCall_def MAX_FILE_SIZE_def)

theorem oversized_file_rejected_witness:
  "MAX_FILE_SIZE < file_size \<lparr>file_name = ''big.mp4'', file_type = ''video/mp4'', file_size = 4294967297\<rparr>
   \<and> handleFileChange (\<lambda>_. ''blob:1'')
        (Some \<lparr>file_name = ''big.mp4'', file_type = ''video/mp4'', file_size = 4294967297\<rparr>)
        initialState
      = (initialState, [Alert ''File size exceeds the 4GB limit.''])
   \<and> status (processingState initialState) = Idle"
proof -
  let ?f = "\<lparr>file_name = ''big.mp4'', file_type = ''video/mp4'', file_size = 4294967297\<rparr>"
  have h: "MAX_FILE_SIZE < file_size ?f" by (simp add: MAX_FILE_SIZE_def)
  have i: "status (processingState initialState) = Idle" by (simp add: initialState_def)
  from oversized_file_rejected [OF h, of "\<lambda>_. ''blob:1''" initialState] h i
  show ?thesis by blast
qed

lemma step_not_reading:
  assumes "status (processingState st) \<noteq> Reading"
  shows "status (processingState (step u a st)) \<noteq> Reading"
proof (cases a)
  case (SelectFile x)
  with assms show ?thesis
    by (simp add: handleFileChange_def split: option.splits)
next
  case Reset
  then show ?thesis by (simp add: resetFile_def)
next
  case ProcessStart
  with assms show ?thesis by (simp add: processStart_def split: option.splits)
next
  case (StatusCallback m)
  then show ?thesis by (simp add: statusCallback_def)
next
  case (ProcessSuccess x)
  then show ?thesis by (simp add: processSuccess_def)
next
  case (ProcessFailure e)
  then show ?thesis by (simp add: processFailure_def)
next
  case (SetTargetLanguage l)
  with assms show ?thesis by simp
next
  case (SetCurrentTime t)
  with assms show ?thesis by simp
qed

lemma reachable_callbacks: "reachable u st \<Longrightarrow> reachable u (fold statusCallback ms st)"
proof (induction ms arbitrary: st)
  case Nil
  then show ?case by simp
next
  case (Cons m ms)
  from Cons.prems have "reachable u (step u (StatusCallback m) st)" by (rule reachable.after)
  then have "reachable u (statusCallback m st)" by simp
  then show ?case using Cons.IH by simp
qed

lemma handleProcess_reachable:
  assumes "reachable u st" "handleProcess ai st = Some (st', tr)"
  shows "reachable u st'"
proof (cases "file st")
  case None
  with assms show ?thesis by (simp add: handleProcess_def)
next
  case (Some f)
  from assms(1) have "reachable u (step u ProcessStart st)" by (rule reachable.after)
  with Some have "reachable u (processStart st)" by simp
  then have r: "reachable u (fold statusCallback ms (processStart st))" for ms
    by (rule reachable_callbacks)
  from assms(2) Some obtain res where
    g: "generateBilingualSubtitles ai f (targetLanguage st) True = Some (res, tr)"
    and s: "st' = (case res of
                    Inr subs \<Rightarrow> processSuccess subs (fold statusCallback (statusMessages tr) (processStart st))
                  | Inl err \<Rightarrow> processFailure err (fold statusCallback (statusMessages tr) (processStart st)))"
    by (auto simp: handleProcess_def Let_def split: option.splits)
  show ?thesis
  proof (cases res)
    case (Inl err)
    have "reachable u (step u (ProcessFailure err) (fold statusCallback (statusMessages tr) (processStart st)))"
      using r by (rule reachable.after)
    with s Inl show ?thesis by simp
  next
    case (Inr subs)
    have "reachable u (step u (ProcessSuccess subs) (fold statusCallback (statusMessages tr) (processStart st)))"
      using r by (rule reachable.after)
    with s Inr show ?thesis by simp
  qed
qed

text \<open>
  C10. No write to the application state produces the status \<open>reading\<close>: starting from
  the initial state, after any sequence of file selections, resets, starts of a generation,
  status callbacks, successes, failures and changes of language or time, the processing
  status is never \<open>reading\<close>.
\<close>

theorem never_reading:
  assumes "reachable u st"
  shows "status (processingState st) \<noteq> Reading"
  using assms
proof (induction rule: reachable.induct)
  case initial
  show ?case by (simp add: initialState_def)
next
  case (after st a)
  then show ?case by (simp add: step_not_reading)
qed

theorem never_reading_witness:
  "reachable (\<lambda>_. ''blob:1'')
     (step (\<lambda>_. ''blob:1'') ProcessStart
        (step (\<lambda>_. ''blob:1'')
           (SelectFile (Some \<lparr>file_name = ''a.mp4'', file_type = ''video/mp4'', file_size = 1\<rparr>))
           initialState))
   \<and> status (processingState
        (step (\<lambda>_. ''blob:1'') ProcessStart
           (step (\<lambda>_. ''blob:1'')
              (SelectFile (Some \<lparr>file_name = ''a.mp4'', file_type = ''video/mp4'', file_size = 1\<rparr>))
              initialState))) = Uploading
   \<and> status (processingState
        (step (\<lambda>_. ''blob:1'') ProcessStart
           (step (\<lambda>_. ''blob:1'')
              (SelectFile (Some \<lparr>file_name = ''a.mp4'', file_type = ''video/mp4'', file_size = 1\<rparr>))
              initialState))) \<noteq> Reading"
proof -
  let ?u = "\<lambda>_ :: File. ''blob:1''"
  let ?s = "step ?u ProcessStart
        (step ?u (SelectFile (Some \<lparr>file_name = ''a.mp4'', file_type = ''video/mp4'', file_size = 1\<rparr>))
           initialState)"
  have r: "reachable ?u ?s" by (intro reachable.after reachable.initial)
  have "status (processingState ?s) = Uploading"
    by (simp add: handleFileChange_def MAX_FILE_SIZE_def initialState_def processStart_def)
  with r never_reading [OF r] show ?thesis by blast
qed

section \<open>Claims about the generation workflow\<close>

lemma states_differ: "PROCESSING \<noteq> FAILED"
  by (simp add: PROCESSING_def FAILED_def)

lemma concat_replicate_snoc: "concat (replicate m xs) @ xs = concat (replicate (Suc m) xs)"
  by (induction m) simp_all

lemma pollLoop_done:
  "fileState \<noteq> PROCESSING \<Longrightarrow> pollLoop get nm k fileState tr = Some (Inr (), tr)"
  by (subst pollLoop.simps) simp

lemma pollLoop_turn:
  "get k = Returns r \<Longrightarrow> state (unwrap r) \<noteq> FAILED \<Longrightarrow>
     pollLoop get nm k PROCESSING tr = pollLoop get nm (Suc k) (state (unwrap r)) (tr @ pollStep nm)"
  by (subst pollLoop.simps) simp

lemma pollLoop_failed:
  "get k = Returns r \<Longrightarrow> state (unwrap r) = FAILED \<Longrightarrow>
     pollLoop get nm k PROCESSING tr = Some (Inl processingFailed, tr @ pollStep nm)"
  by (subst pollLoop.simps) simp

lemma pollLoop_processing_run:
  assumes "\<forall>j<n. \<exists>r. get (k + j) = Returns r \<and> state (unwrap r) = PROCESSING"
  shows "pollLoop get nm k PROCESSING tr =
     pollLoop get nm (k + n) PROCESSING (tr @ concat (replicate n (pollStep nm)))"
  using assms
proof (induction n arbitrary: k tr)
  case 0
  show ?case by simp
next
  case (Suc n)
  from Suc.prems obtain r where r: "get k = Returns r" "state (unwrap r) = PROCESSING"
    by (metis add.right_neutral zero_less_Suc)
  have "\<forall>j<n. \<exists>r. get (Suc k + j) = Returns r \<and> state (unwrap r) = PROCESSING"
  proof (intro allI impI)
    fix j assume "j < n"
    then have "Suc j < Suc n" by simp
    with Suc.prems have "\<exists>r. get (k + Suc j) = Returns r \<and> state (unwrap r) = PROCESSING"
      by blast
    then show "\<exists>r. get (Suc k + j) = Returns r \<and> state (unwrap r) = PROCESSING" by simp
  qed
  then have ih: "pollLoop get nm (Suc k) PROCESSING (tr @ pollStep nm) =
     pollLoop get nm (Suc k + n) PROCESSING ((tr @ pollStep nm) @ concat (replicate n (pollStep nm)))"
    by (rule Suc.IH)
  have "pollLoop get nm k PROCESSING tr = pollLoop get nm (Suc k) PROCESSING (tr @ pollStep nm)"
    using pollLoop_turn [where get = get and k = k and r = r and nm = nm and tr = tr] r states_differ
    by simp
  with ih show ?case by simp
qed

text \<open>
  The loop after \<open>n\<close> observations of the processing state, the first of them in the upload
  response, followed by the observation of another state.
\<close>

lemma pollLoop_observed:
  assumes "uploadReply ai = Returns up"
    and "\<forall>k<n. observedState ai k = Some PROCESSING"
    and "observedState ai n = Some s" "s \<noteq> PROCESSING"
  shows "pollLoop (getReply ai) nm 0 (state (unwrap up)) tr =
     (if 0 < n \<and> s = FAILED
      then Some (Inl processingFailed, tr @ concat (replicate n (pollStep nm)))
      else Some (Inr (), tr @ concat (replicate n (pollStep nm))))"
proof (cases n)
  case 0
  with assms(1,3) have "state (unwrap up) = s" by (simp add: observedState_def)
  with assms(4) 0 show ?thesis by (simp add: pollLoop_done)
next
  case (Suc m)
  from assms(2) Suc have "observedState ai 0 = Some PROCESSING" by simp
  with assms(1) have s0: "state (unwrap up) = PROCESSING" by (simp add: observedState_def)
  have run: "\<forall>j<m. \<exists>r. getReply ai (0 + j) = Returns r \<and> state (unwrap r) = PROCESSING"
  proof (intro allI impI)
    fix j assume "j < m"
    then have "Suc j < n" using Suc by simp
    with assms(2) have "observedState ai (Suc j) = Some PROCESSING" by blast
    then show "\<exists>r. getReply ai (0 + j) = Returns r \<and> state (unwrap r) = PROCESSING"
      by (auto simp: observedState_def split: reply.splits)
  qed
  from assms(3) Suc obtain r where r: "getReply ai m = Returns r" "state (unwrap r) = s"
    by (auto simp: observedState_def split: reply.splits)
  have 1: "pollLoop (getReply ai) nm 0 PROCESSING tr =
      pollLoop (getReply ai) nm m PROCESSING (tr @ concat (replicate m (pollStep nm)))"
    using pollLoop_processing_run [OF run, of nm tr] by simp
  have c: "concat (replicate m (pollStep nm)) @ pollStep nm = concat (replicate n (pollStep nm))"
    unfolding Suc by (rule concat_replicate_snoc)
  show ?thesis
  proof (cases "s = FAILED")
    case True
    with r have "pollLoop (getReply ai) nm m PROCESSING (tr @ concat (replicate m (pollStep nm)))
        = Some (Inl processingFailed, (tr @ concat (replicate m (pollStep nm))) @ pollStep nm)"
      by (simp add: pollLoop_failed)
    with 1 s0 True Suc c show ?thesis by simp
  next
    case False
    with r have "pollLoop (getReply ai) nm m PROCESSING (tr @ concat (replicate m (pollStep nm)))
        = pollLoop (getReply ai) nm (Suc m) s ((tr @ concat (replicate m (pollStep nm))) @ pollStep nm)"
      using pollLoop_turn [where get = "getReply ai" and k = m and r = r and nm = nm] by simp
    also have "\<dots> = Some (Inr (), (tr @ concat (replicate m (pollStep nm))) @ pollStep nm)"
      using assms(4) by (rule pollLoop_done)
    finally show ?thesis using 1 s0 False c by simp
  qed
qed

lemma generatePhase_trace:
  "snd (generatePhase ai cb mimeType u lang tr) =
     tr @ notify cb ''Generating subtitles...'' @ [GenerateContent modelId mimeType u lang]"
  by (simp add: generatePhase_def Let_def split: reply.splits option.splits)

lemma filter_delay_steps:
  "filter isDelay (concat (replicate n (pollStep nm))) = replicate n (Delay 2000)"
  by (induction n) (simp_all add: pollStep_def isDelay_def)

lemma notify_no_delay: "filter isDelay (notify cb m) = []"
  by (simp add: notify_def isDelay_def)

text \<open>
  C7. While the state it reads is the processing state, the workflow waits 2000 ms and
  queries the status again. If it reads the processing state \<open>n\<close> times (the upload
  response counting as the first reading) and then another state, it returns, and its
  effects are the upload, then \<open>n\<close> times a 2000 ms delay followed by a status query, then
  the generation request (or nothing more, when the state that ended the polling is the
  failed one): the delays are exactly \<open>n\<close>, all before the generation. With the
  processing state read twice and then a state that is neither processing nor failed,
  that is two delays before the generation.
\<close>

theorem polling_delays:
  assumes "uploadReply ai = Returns up" "uri (unwrap up) = Some u" "u \<noteq> []"
    and "\<forall>k<n. observedState ai k = Some PROCESSING"
    and "observedState ai n = Some s" "s \<noteq> PROCESSING"
  shows
    "\<exists>res pre post.
       generateBilingualSubtitles ai f lang cb =
         Some (res, pre @ concat (replicate n [Delay 2000, FilesGet (name (unwrap up))]) @ post)
       \<and> pre = notify cb ''Uploading video to Gemini...''
                @ [FilesUpload (file_name f) (if file_type f = [] then ''video/mp4'' else file_type f)]
                @ notify cb ''Processing video...''
       \<and> post = (if 0 < n \<and> s = FAILED then []
                  else notify cb ''Generating subtitles...''
                       @ [GenerateContent modelId
                            (if file_type f = [] then ''video/mp4'' else file_type f) u lang])
       \<and> filter isDelay (pre @ concat (replicate n [Delay 2000, FilesGet (name (unwrap up))]) @ post)
           = replicate n (Delay 2000)"
proof -
  let ?mime = "if file_type f = [] then ''video/mp4'' else file_type f"
  let ?pre = "notify cb ''Uploading video to Gemini...'' @ [FilesUpload (file_name f) ?mime]
                @ notify cb ''Processing video...''"
  let ?post = "if 0 < n \<and> s = FAILED then []
                  else notify cb ''Generating subtitles...'' @ [GenerateContent modelId ?mime u lang]"
  let ?steps = "concat (replicate n [Delay 2000, FilesGet (name (unwrap up))])"
  have p: "pollLoop (getReply ai) (name (unwrap up)) 0 (state (unwrap up)) ?pre =
     (if 0 < n \<and> s = FAILED
      then Some (Inl processingFailed, ?pre @ concat (replicate n (pollStep (name (unwrap up)))))
      else Some (Inr (), ?pre @ concat (replicate n (pollStep (name (unwrap up))))))"
    using assms(1,4,5,6) by (rule pollLoop_observed)
  have st: "pollStep (name (unwrap up)) = [Delay 2000, FilesGet (name (unwrap up))]"
    by (simp add: pollStep_def)
  have g: "\<exists>res. generateBilingualSubtitles ai f lang cb = Some (res, ?pre @ ?steps @ ?post)"
  proof (cases "0 < n \<and> s = FAILED")
    case True
    then show ?thesis
      using assms(1-3) p unfolding st
      by (simp add: generateBilingualSubtitles_def Let_def)
  next
    case False
    with p have "pollLoop (getReply ai) (name (unwrap up)) 0 (state (unwrap up)) ?pre =
        Some (Inr (), ?pre @ ?steps)"
      unfolding st by (simp only: if_False)
    then have "generateBilingualSubtitles ai f lang cb =
        Some (generatePhase ai cb ?mime u lang (?pre @ ?steps))"
      using assms(1-3) by (simp add: generateBilingualSubtitles_def Let_def)
    moreover have "?post = notify cb ''Generating subtitles...''
        @ [GenerateContent modelId ?mime u lang]"
      using False by (simp only: if_False)
    then have "snd (generatePhase ai cb ?mime u lang (?pre @ ?steps)) = ?pre @ ?steps @ ?post"
      by (simp only: generatePhase_trace append_assoc)
    ultimately have "generateBilingualSubtitles ai f lang cb =
        Some (fst (generatePhase ai cb ?mime u lang (?pre @ ?steps)), ?pre @ ?steps @ ?post)"
      by (metis prod.collapse)
    then show ?thesis by blast
  qed
  have d: "filter isDelay (?pre @ ?steps @ ?post) = replicate n (Delay 2000)"
    using filter_delay_steps [of n "name (unwrap up)"] unfolding st
    by (simp add: notify_no_delay isDelay_def)
  from g d show ?thesis by blast
qed


theorem polling_delays_witness:
  "uploadReply
     \<lparr>uploadReply = Returns \<lparr>wrapped = None, direct = \<lparr>uri = Some ''u'', name = Some ''files/x'', state = PROCESSING\<rparr>\<rparr>,
      getReply = (\<lambda>k. Returns \<lparr>wrapped = None,
                   direct = \<lparr>uri = Some ''u'', name = Some ''files/x'',
                             state = (if k = 0 then PROCESSING else Some ''ACTIVE'')\<rparr>\<rparr>),
      generateReply = Returns (Some ''[]''), parseJSON = (\<lambda>t. Some [])\<rparr>
     = Returns \<lparr>wrapped = None, direct = \<lparr>uri = Some ''u'', name = Some ''files/x'', state = PROCESSING\<rparr>\<rparr>
   \<and> (\<exists>res.
         generateBilingualSubtitles
           \<lparr>uploadReply = Returns \<lparr>wrapped = None, direct = \<lparr>uri = Some ''u'', name = Some ''files/x'', state = PROCESSING\<rparr>\<rparr>,
            getReply = (\<lambda>k. Returns \<lparr>wrapped = None,
                         direct = \<lparr>uri = Some ''u'', name = Some ''files/x'',
                                   state = (if k = 0 then PROCESSING else Some ''ACTIVE'')\<rparr>\<rparr>),
            generateReply = Returns (Some ''[]''), parseJSON = (\<lambda>t. Some [])\<rparr>
           \<lparr>file_name = ''a.mp4'', file_type = ''video/mp4'', file_size = 1\<rparr> ENGLISH True
         = Some (res,
             [StatusUpdate ''Uploading video to Gemini...'', FilesUpload ''a.mp4'' ''video/mp4'',
              StatusUpdate ''Processing video...'',
              Delay 2000, FilesGet (Some ''files/x''), Delay 2000, FilesGet (Some ''files/x''),
              StatusUpdate ''Generating subtitles...'',
              GenerateContent modelId ''video/mp4'' ''u'' ENGLISH]))"
proof -
  let ?up = "\<lparr>wrapped = None, direct = \<lparr>uri = Some ''u'', name = Some ''files/x'', state = PROCESSING\<rparr>\<rparr>"
  let ?ai = "\<lparr>uploadReply = Returns ?up,
      getReply = (\<lambda>k. Returns \<lparr>wrapped = None,
                   direct = \<lparr>uri = Some ''u'', name = Some ''files/x'',
                             state = (if k = 0 then PROCESSING else Some ''ACTIVE'')\<rparr>\<rparr>),
      generateReply = Returns (Some ''[]''), parseJSON = (\<lambda>t. Some [])\<rparr>"
  let ?f = "\<lparr>file_name = ''a.mp4'', file_type = ''video/mp4'', file_size = 1\<rparr>"
  have 1: "uploadReply ?ai = Returns ?up" by simp
  have 2: "uri (unwrap ?up) = Some ''u''" by (simp add: unwrap_def)
  have 3: "''u'' \<noteq> []" by simp
  have 4: "\<forall>k<2. observedState ?ai k = Some PROCESSING"
    by (simp add: observedState_def unwrap_def less_Suc_eq numeral_2_eq_2)
  have 5: "observedState ?ai 2 = Some (Some ''ACTIVE'')"
    by (simp add: observedState_def unwrap_def numeral_2_eq_2)
  have 6: "Some ''ACTIVE'' \<noteq> PROCESSING" by (simp add: PROCESSING_def)
  have 7: "Some ''ACTIVE'' \<noteq> FAILED" by (simp add: FAILED_def)
  from polling_delays [OF 1 2 3 4 5 6, of ?f ENGLISH True] 7
  have "\<exists>res. generateBilingualSubtitles ?ai ?f ENGLISH True
         = Some (res,
             [StatusUpdate ''Uploading video to Gemini...'', FilesUpload ''a.mp4'' ''video/mp4'',
              StatusUpdate ''Processing video...'',
              Delay 2000, FilesGet (Some ''files/x''), Delay 2000, FilesGet (Some ''files/x''),
              StatusUpdate ''Generating subtitles...'',
              GenerateContent modelId ''video/mp4'' ''u'' ENGLISH])"
    by (simp add: notify_def unwrap_def numeral_2_eq_2)
  with 1 show ?thesis by blast
qed


lemma handleProcess_failure:
  assumes "file st = Some f"
    and "generateBilingualSubtitles ai f (targetLanguage st) True = Some (Inl e, tr)"
  shows "\<exists>st'. handleProcess ai st = Some (st', tr) \<and> status (processingState st') = Error"
  using assms by (simp add: handleProcess_def processFailure_def Let_def)

text \<open>
  C8. When the resource taken from the upload response, under its \<open>file\<close> property or
  as the response itself, has no \<open>uri\<close> or an empty one, the workflow throws the error
  "Failed to upload file: URI is missing from response." right after the upload: there is
  no delay, no status query and no generation request, and the application ends in the
  error state.
\<close>

theorem missing_uri_fails:
  assumes "uploadReply ai = Returns up"
    and "(\<exists>w. wrapped up = Some w \<and> (uri w = None \<or> uri w = Some []))
         \<or> (wrapped up = None \<and> (uri (direct up) = None \<or> uri (direct up) = Some []))"
  shows
    "generateBilingualSubtitles ai f lang cb =
       Some (Inl uriMissing,
             notify cb ''Uploading video to Gemini...''
             @ [FilesUpload (file_name f) (if file_type f = [] then ''video/mp4'' else file_type f)])
     \<and> uriMissing = JsError ''Error'' ''Failed to upload file: URI is missing from response.''
     \<and> (file st = Some f \<longrightarrow>
          (\<exists>st'. handleProcess ai st =
                   Some (st',
                         [StatusUpdate ''Uploading video to Gemini...'',
                          FilesUpload (file_name f)
                            (if file_type f = [] then ''video/mp4'' else file_type f)])
                 \<and> status (processingState st') = Error))"
proof -
  from assms(2) have u: "uri (unwrap up) = None \<or> uri (unwrap up) = Some []"
    by (auto simp: unwrap_def)
  have g: "generateBilingualSubtitles ai f lang cb =
       Some (Inl uriMissing,
             notify cb ''Uploading video to Gemini...''
             @ [FilesUpload (file_name f) (if file_type f = [] then ''video/mp4'' else file_type f)])"
    for lang cb
    using assms(1) u by (auto simp: generateBilingualSubtitles_def Let_def)
  have "\<exists>st'. handleProcess ai st =
                   Some (st',
                         [StatusUpdate ''Uploading video to Gemini...'',
                          FilesUpload (file_name f)
                            (if file_type f = [] then ''video/mp4'' else file_type f)])
                 \<and> status (processingState st') = Error"
    if "file st = Some f"
    using that g [of "targetLanguage st" True]
    by (intro handleProcess_failure) (simp_all add: notify_def)
  with g show ?thesis by (simp add: uriMissing_def)
qed

theorem missing_uri_fails_witness:
  "uploadReply
     \<lparr>uploadReply = Returns \<lparr>wrapped = Some \<lparr>uri = None, name = Some ''files/x'', state = Some ''ACTIVE''\<rparr>,
                              direct = \<lparr>uri = Some ''u'', name = None, state = None\<rparr>\<rparr>,
      getReply = (\<lambda>k. Throws (JsError ''Error'' ''offline'')),
      generateReply = Returns (Some ''[]''), parseJSON = (\<lambda>t. Some [])\<rparr>
     = Returns \<lparr>wrapped = Some \<lparr>uri = None, name = Some ''files/x'', state = Some ''ACTIVE''\<rparr>,
                direct = \<lparr>uri = Some ''u'', name = None, state = None\<rparr>\<rparr>
   \<and> generateBilingualSubtitles
       \<lparr>uploadReply = Returns \<lparr>wrapped = Some \<lparr>uri = None, name = Some ''files/x'', state = Some ''ACTIVE''\<rparr>,
                                direct = \<lparr>uri = Some ''u'', name = None, state = None\<rparr>\<rparr>,
        getReply = (\<lambda>k. Throws (JsError ''Error'' ''offline'')),
        generateReply = Returns (Some ''[]''), parseJSON = (\<lambda>t. Some [])\<rparr>
       \<lparr>file_name = ''a.mp4'', file_type = [], file_size = 1\<rparr> CHINESE True
     = Some (Inl (JsError ''Error'' ''Failed to upload file: URI is missing from response.''),
             [StatusUpdate ''Uploading video to Gemini...'', FilesUpload ''a.mp4'' ''video/mp4''])"
proof -
  let ?up = "\<lparr>wrapped = Some \<lparr>uri = None, name = Some ''files/x'', state = Some ''ACTIVE''\<rparr>,
                direct = \<lparr>uri = Some ''u'', name = None, state = None\<rparr>\<rparr>"
  let ?ai = "\<lparr>uploadReply = Returns ?up,
      getReply = (\<lambda>k. Throws (JsError ''Error'' ''offline'')),
      generateReply = Returns (Some ''[]''), parseJSON = (\<lambda>t. Some [])\<rparr>"
  have 1: "uploadReply ?ai = Returns ?up" by simp
  have 2: "(\<exists>w. wrapped ?up = Some w \<and> (uri w = None \<or> uri w = Some []))
         \<or> (wrapped ?up = None \<and> (uri (direct ?up) = None \<or> uri (direct ?up) = Some []))"
    by simp
  from missing_uri_fails [OF 1 2, of "\<lparr>file_name = ''a.mp4'', file_type = [], file_size = 1\<rparr>" CHINESE True]
  show ?thesis by (simp add: notify_def)
qed

lemma failed_poll_is_error:
  assumes "uploadReply ai = Returns up" "uri (unwrap up) = Some u" "u \<noteq> []"
    and "\<forall>k<n. observedState ai k = Some PROCESSING"
    and "observedState ai n = Some FAILED" "0 < n"
    and "file st = Some f"
  shows "\<exists>st' tr. handleProcess ai st = Some (st', tr)
           \<and> status (processingState st') = Error \<and> filter isGenerate tr = []"
proof -
  let ?mime = "if file_type f = [] then ''video/mp4'' else file_type f"
  let ?pre = "notify True ''Uploading video to Gemini...'' @ [FilesUpload (file_name f) ?mime]
                @ notify True ''Processing video...''"
  let ?tr = "?pre @ concat (replicate n (pollStep (name (unwrap up))))"
  have "pollLoop (getReply ai) (name (unwrap up)) 0 (state (unwrap up)) ?pre =
      Some (Inl processingFailed, ?tr)"
    using pollLoop_observed [OF assms(1,4,5), of "name (unwrap up)" ?pre] assms(6) states_differ
    by simp
  then have g: "generateBilingualSubtitles ai f (targetLanguage st) True = Some (Inl processingFailed, ?tr)"
    using assms(1-3) by (simp add: generateBilingualSubtitles_def Let_def)
  have "filter isGenerate (concat (replicate n (pollStep nm))) = []" for nm
    by (induction n) (simp_all add: pollStep_def isGenerate_def)
  then have "filter isGenerate ?tr = []" by (simp add: notify_def isGenerate_def)
  with handleProcess_failure [OF assms(7) g] show ?thesis by blast
qed

text \<open>
  C5. The workflow tests for the failed state only inside the polling loop, after a status
  query. A failed state that comes with the upload response is not the processing state, so
  the loop is skipped and the test with it: the workflow goes on to the generation request
  and, when that succeeds, the application ends in the completed state. (A failed state
  read from a status query does stop the workflow with an error and without generation:
  \<open>failed_poll_is_error\<close>.)
\<close>

theorem failed_upload_state_reaches_generation:
  "generateBilingualSubtitles
     \<lparr>uploadReply = Returns \<lparr>wrapped = None, direct = \<lparr>uri = Some ''u'', name = Some ''files/x'', state = FAILED\<rparr>\<rparr>,
      getReply = (\<lambda>k. Returns \<lparr>wrapped = None, direct = \<lparr>uri = Some ''u'', name = Some ''files/x'', state = FAILED\<rparr>\<rparr>),
      generateReply = Returns (Some ''[]''), parseJSON = (\<lambda>t. Some [])\<rparr>
     \<lparr>file_name = ''a.mp4'', file_type = ''video/mp4'', file_size = 1024\<rparr> ENGLISH True
   = Some (Inr [],
       [StatusUpdate ''Uploading video to Gemini...'', FilesUpload ''a.mp4'' ''video/mp4'',
        StatusUpdate ''Processing video...'', StatusUpdate ''Generating subtitles...'',
        GenerateContent modelId ''video/mp4'' ''u'' ENGLISH])
   \<and> map_option (\<lambda>r. status (processingState (fst r)))
       (handleProcess
          \<lparr>uploadReply = Returns \<lparr>wrapped = None, direct = \<lparr>uri = Some ''u'', name = Some ''files/x'', state = FAILED\<rparr>\<rparr>,
           getReply = (\<lambda>k. Returns \<lparr>wrapped = None, direct = \<lparr>uri = Some ''u'', name = Some ''files/x'', state = FAILED\<rparr>\<rparr>),
           generateReply = Returns (Some ''[]''), parseJSON = (\<lambda>t. Some [])\<rparr>
          (initialState\<lparr>file := Some \<lparr>file_name = ''a.mp4'', file_type = ''video/mp4'', file_size = 1024\<rparr>\<rparr>))
     = Some Completed"
proof -
  have p: "pollLoop get nm 0 FAILED tr = Some (Inr (), tr)" for get nm tr
    using states_differ by (intro pollLoop_done) simp
  have g: "generateBilingualSubtitles
     \<lparr>uploadReply = Returns \<lparr>wrapped = None, direct = \<lparr>uri = Some ''u'', name = Some ''files/x'', state = FAILED\<rparr>\<rparr>,
      getReply = (\<lambda>k. Returns \<lparr>wrapped = None, direct = \<lparr>uri = Some ''u'', name = Some ''files/x'', state = FAILED\<rparr>\<rparr>),
      generateReply = Returns (Some ''[]''), parseJSON = (\<lambda>t. Some [])\<rparr>
     \<lparr>file_name = ''a.mp4'', file_type = ''video/mp4'', file_size = 1024\<rparr> ENGLISH True
   = Some (Inr [],
       [StatusUpdate ''Uploading video to Gemini...'', FilesUpload ''a.mp4'' ''video/mp4'',
        StatusUpdate ''Processing video...'', StatusUpdate ''Generating subtitles...'',
        GenerateContent modelId ''video/mp4'' ''u'' ENGLISH])"
    by (simp add: generateBilingualSubtitles_def unwrap_def notify_def p generatePhase_def Let_def)
  show ?thesis
    unfolding handleProcess_def
    by (simp add: g initialState_def processSuccess_def)
qed

end
